theory Spec2Isabelle
  imports Complex_Main
begin

text \<open>
  The JSON recovery of \<open>analyzer.py\<close> and of \<open>scraper_ia_pdf_a_json.py\<close> (two functions
  named \<open>clean_json_string\<close>) and the numeric normalizer \<open>to_number_simple\<close> of
  \<open>cleaner.py\<close>, as functions on strings, with the parts of Python they call:
  \<open>str.strip\<close>, \<open>str.lower\<close>, \<open>re.sub\<close> and \<open>re.search\<close> for the patterns used, \<open>float\<close>,
  and \<open>json.loads\<close>. An exception is a value \<open>Inl e\<close>.
\<close>

section \<open>Python strings\<close>

text \<open>
  A Python \<open>str\<close> is a sequence of code points. The model takes the texts whose code
  points are below 256, one \<open>char\<close> per code point (so \<open>length\<close> counts what
  Python's \<open>len\<close> counts). Strings decoded from JSON are lists of code points
  (\<open>nat list\<close>), because a \<open>\uXXXX\<close> escape can denote any code point.
\<close>

text \<open>\<open>str.isspace\<close> on one character, which is also what \<open>\s\<close> matches in a
  \<open>str\<close> pattern: 0x09-0x0D, 0x1C-0x20, 0x85 and 0xA0 are the white space below 256.\<close>

definition py_isspace :: "char \<Rightarrow> bool" where
  "py_isspace c =
     (let n = (of_char c :: nat)
      in (9 \<le> n \<and> n \<le> 13) \<or> (28 \<le> n \<and> n \<le> 32) \<or> n = 133 \<or> n = 160)"

text \<open>\<open>s.strip()\<close>\<close>

definition py_strip :: "string \<Rightarrow> string" where
  "py_strip s = rev (dropWhile py_isspace (rev (dropWhile py_isspace s)))"

text \<open>\<open>s.startswith(p)\<close>\<close>

definition startswith :: "string \<Rightarrow> string \<Rightarrow> bool" where
  "startswith p s = (take (length p) s = p)"

text \<open>\<open>s[a:b]\<close> for indices \<open>0 \<le> a\<close> and \<open>0 \<le> b\<close>\<close>

definition slice :: "string \<Rightarrow> nat \<Rightarrow> nat \<Rightarrow> string" where
  "slice s a b = take (b - a) (drop a s)"

section \<open>Python floats\<close>

text \<open>
  A \<open>float\<close> is an IEEE 754 double: a finite one is the rational number it denotes.
  \<open>to_double q\<close> is the double nearest to the rational \<open>q\<close>, ties to the even
  significand, which is what \<open>float\<close> does to a decimal literal and to an \<open>int\<close>, and
  what the arithmetic does to an exact result. A double has 53 significant bits; its
  exponent is at least \<open>-1022\<close>, and a result that rounds to \<open>2 ^ 1024\<close> or more is
  infinite.
\<close>

datatype pyfloat = Finite rat | PosInf | NegInf | NaN

definition pow2 :: "int \<Rightarrow> rat" where
  "pow2 e = (if 0 \<le> e then 2 ^ nat e else 1 / 2 ^ nat (- e))"

function halvings :: "rat \<Rightarrow> nat" where
  "halvings a = (if 2 \<le> a then Suc (halvings (a / 2)) else 0)"
  by pat_completeness auto
termination
proof (relation "measure (\<lambda>a. nat \<lfloor>a\<rfloor>)")
  show "wf (measure (\<lambda>a :: rat. nat \<lfloor>a\<rfloor>))" by simp
next
  fix a :: rat
  assume a: "2 \<le> a"
  have "a / 2 < of_int \<lfloor>a\<rfloor>"
  proof -
    have "a < of_int \<lfloor>a\<rfloor> + 1" by linarith
    moreover have "(2 :: rat) \<le> of_int \<lfloor>a\<rfloor>" using a by (simp add: le_floor_iff)
    ultimately show ?thesis by linarith
  qed
  then have "\<lfloor>a / 2\<rfloor> < \<lfloor>a\<rfloor>" by (simp add: floor_less_iff)
  moreover have "0 < \<lfloor>a\<rfloor>" using a by (simp add: less_floor_iff)
  ultimately show "(a / 2, a) \<in> measure (\<lambda>a. nat \<lfloor>a\<rfloor>)" by simp
qed

function doublings :: "rat \<Rightarrow> nat" where
  "doublings a = (if 0 < a \<and> a < 1 then Suc (doublings (a * 2)) else 0)"
  by pat_completeness auto
termination
proof (relation "measure (\<lambda>a. nat \<lfloor>1 / a\<rfloor>)")
  show "wf (measure (\<lambda>a :: rat. nat \<lfloor>1 / a\<rfloor>))" by simp
next
  fix a :: rat
  assume a: "0 < a \<and> a < 1"
  define x where "x = 1 / a"
  from a have x: "1 < x" by (simp add: x_def)
  have "x / 2 < of_int \<lfloor>x\<rfloor>"
  proof -
    have "x < of_int \<lfloor>x\<rfloor> + 1" by linarith
    moreover have "(1 :: rat) \<le> of_int \<lfloor>x\<rfloor>" using x by (simp add: le_floor_iff)
    ultimately show ?thesis by linarith
  qed
  then have "\<lfloor>x / 2\<rfloor> < \<lfloor>x\<rfloor>" by (simp add: floor_less_iff)
  moreover have "0 < \<lfloor>x\<rfloor>" using x by (simp add: less_floor_iff)
  ultimately have "nat \<lfloor>x / 2\<rfloor> < nat \<lfloor>x\<rfloor>" by linarith
  moreover have "1 / (a * 2) = x / 2" by (simp add: x_def)
  ultimately have "nat \<lfloor>1 / (a * 2)\<rfloor> < nat \<lfloor>1 / a\<rfloor>" by (simp only: x_def)
  then show "(a * 2, a) \<in> measure (\<lambda>a. nat \<lfloor>1 / a\<rfloor>)" by (simp only: in_measure)
qed

declare halvings.simps [simp del] doublings.simps [simp del]

text \<open>The exponent of the binade of \<open>a\<close>: \<open>2 ^ e \<le> a < 2 ^ (e + 1)\<close>; below the least
  normal number it stays at \<open>-1022\<close>.\<close>

definition exponent :: "rat \<Rightarrow> int" where
  "exponent a =
     (if 1 \<le> a then int (halvings a)
      else if a < pow2 (- 1022) then - 1022
      else - int (doublings a))"

definition round_even :: "rat \<Rightarrow> int" where
  "round_even k =
     (let f = \<lfloor>k\<rfloor>;
          r = k - of_int f
      in if r < 1 / 2 then f
         else if 1 / 2 < r then f + 1
         else if even f then f else f + 1)"

definition round_pos :: "rat \<Rightarrow> rat" where
  "round_pos a =
     (let ulp = pow2 (exponent a - 52)
      in of_int (round_even (a / ulp)) * ulp)"

definition to_double :: "rat \<Rightarrow> pyfloat" where
  "to_double q =
     (if q = 0 then Finite 0
      else if 2 ^ 1024 \<le> \<bar>q\<bar> then (if q < 0 then NegInf else PosInf)
      else if 2 ^ 1024 \<le> round_pos \<bar>q\<bar> then (if q < 0 then NegInf else PosInf)
      else Finite (if q < 0 then - round_pos \<bar>q\<bar> else round_pos \<bar>q\<bar>))"

text \<open>\<open>x * k\<close> for a \<open>float\<close> \<open>x\<close> and a positive \<open>int\<close> \<open>k\<close> that is a double (here
  1000 and 1000000): the exact product, rounded.\<close>

definition fmul :: "pyfloat \<Rightarrow> int \<Rightarrow> pyfloat" where
  "fmul x k = (case x of Finite r \<Rightarrow> to_double (r * of_int k) | PosInf \<Rightarrow> PosInf
     | NegInf \<Rightarrow> NegInf | NaN \<Rightarrow> NaN)"

section \<open>JSON values and \<open>json.loads\<close>\<close>

text \<open>
  The values \<open>json.loads\<close> returns. \<open>JNull\<close> is Python's \<open>None\<close>. A \<open>dict\<close> is an
  association list in insertion order with distinct keys. A finite \<open>float\<close> is the
  rational number that the double denotes; a literal beyond the range of a double is
  \<open>inf\<close>, the value of the literal \<open>Infinity\<close>.
\<close>

datatype json =
    JNull
  | JBool bool
  | JInt int
  | JFloat rat
  | JNaN
  | JInfinity
  | JNegInfinity
  | JString "nat list"
  | JArray "json list"
  | JObject "(nat list \<times> json) list"

text \<open>
  The exceptions that the three functions meet. \<open>json.loads\<close> raises \<open>JSONDecodeError\<close>
  on a text that is not JSON, \<open>RecursionError\<close> when arrays and objects nest deeper than
  the interpreter allows, and \<open>ValueError\<close> on an integer literal with more digits than
  \<open>int\<close> converts. \<open>JSONDecodeError\<close> is a subclass of \<open>ValueError\<close>, not the other way
  round: \<open>except json.JSONDecodeError\<close> catches the first of the four only, and
  \<open>except Exception\<close> catches all four.
\<close>

datatype error = JSONDecodeError | RecursionError | ValueError | OverflowError

text \<open>
  The two limits of the interpreter. The levels left for the decoder are at most
  \<open>sys.getrecursionlimit()\<close>, which is 1000 unless the program changes it, less the frames
  that are in use at the call; \<open>sys.get_int_max_str_digits()\<close> is 4300. The theorems
  below do not depend on the two numbers.
\<close>

definition recursion_limit :: nat where
  "recursion_limit = 1000"

definition int_max_str_digits :: nat where
  "int_max_str_digits = 4300"

text \<open>\<open>d[k] = v\<close> on a dict: a key already present keeps its place.\<close>

fun dict_set :: "(nat list \<times> json) list \<Rightarrow> nat list \<Rightarrow> json \<Rightarrow> (nat list \<times> json) list" where
  "dict_set [] k v = [(k, v)]"
| "dict_set (p # ps) k v = (if fst p = k then (k, v) # ps else p # dict_set ps k v)"

subsection \<open>Lexical scanners\<close>

definition json_ws :: "char \<Rightarrow> bool" where
  "json_ws c = (c = CHR '' '' \<or> c = CHR 0x09 \<or> c = CHR 0x0A \<or> c = CHR 0x0D)"

definition is_digit :: "char \<Rightarrow> bool" where
  "is_digit c = (c \<in> set ''0123456789'')"

definition digit_val :: "char \<Rightarrow> nat" where
  "digit_val c = of_char c - 48"

definition dec_value :: "string \<Rightarrow> nat" where
  "dec_value ds = foldl (\<lambda>a c. 10 * a + digit_val c) 0 ds"

definition hex_val :: "char \<Rightarrow> nat option" where
  "hex_val c =
     (let n = (of_char c :: nat)
      in if 48 \<le> n \<and> n \<le> 57 then Some (n - 48)
         else if 65 \<le> n \<and> n \<le> 70 then Some (n - 55)
         else if 97 \<le> n \<and> n \<le> 102 then Some (n - 87)
         else None)"

text \<open>The four hexadecimal digits of a \<open>\uXXXX\<close> escape.\<close>

definition decode_uXXXX :: "string \<Rightarrow> nat option" where
  "decode_uXXXX s =
     (case map hex_val (take 4 s) of
        [Some a, Some b, Some c, Some d] \<Rightarrow> Some (((a * 16 + b) * 16 + c) * 16 + d)
      | _ \<Rightarrow> None)"

definition backslash :: "char \<Rightarrow> nat option" where
  "backslash e =
     (if e = CHR 0x22 then Some 0x22
      else if e = CHR 0x5C then Some 0x5C
      else if e = CHR ''/'' then Some 0x2F
      else if e = CHR ''b'' then Some 8
      else if e = CHR ''f'' then Some 12
      else if e = CHR ''n'' then Some 10
      else if e = CHR ''r'' then Some 13
      else if e = CHR ''t'' then Some 9
      else None)"

definition put :: "nat \<Rightarrow> nat \<Rightarrow> (nat list \<times> nat) option \<Rightarrow> (nat list \<times> nat) option" where
  "put ch k r = map_option (\<lambda>(str, n). (ch # str, n + k)) r"

text \<open>
  \<open>scanstring\<close> in strict mode, on the text after the opening quote: the decoded string and
  the number of characters read, closing quote included. A control character, an unknown
  escape or a missing closing quote is an error.
\<close>

function scanstring :: "string \<Rightarrow> (nat list \<times> nat) option" where
  "scanstring [] = None"
| "scanstring (c # cs) =
     (if c = CHR 0x22 then Some ([], 1)
      else if c = CHR 0x5C then
        (case cs of
           [] \<Rightarrow> None
         | e # es \<Rightarrow>
             if e = CHR ''u'' then
               (case decode_uXXXX es of
                  None \<Rightarrow> None
                | Some uni \<Rightarrow>
                    if 0xD800 \<le> uni \<and> uni \<le> 0xDBFF \<and> startswith [CHR 0x5C, CHR ''u''] (drop 4 es) then
                      (case decode_uXXXX (drop 6 es) of
                         None \<Rightarrow> None
                       | Some uni2 \<Rightarrow>
                           if 0xDC00 \<le> uni2 \<and> uni2 \<le> 0xDFFF then
                             put (0x10000 + ((uni - 0xD800) * 1024 + (uni2 - 0xDC00))) 12
                               (scanstring (drop 10 es))
                           else put uni 6 (scanstring (drop 4 es)))
                    else put uni 6 (scanstring (drop 4 es)))
             else
               (case backslash e of
                  None \<Rightarrow> None
                | Some ch \<Rightarrow> put ch 2 (scanstring es)))
      else if (of_char c :: nat) < 0x20 then None
      else put (of_char c) 1 (scanstring cs))"
  by pat_completeness auto
termination
  by (relation "measure length") auto

subsection \<open>Tokens\<close>

text \<open>
  What the scanner reads at one position. \<open>TBig\<close> is an integer literal with more digits
  than \<open>int\<close> converts; \<open>TBad\<close> is a position where no token starts or where a string
  does not end, and nothing after it is read.
\<close>

datatype token =
    TLBrace | TRBrace | TLBracket | TRBracket | TColon | TComma | TValue json | TBig | TBad

text \<open>\<open>float(integer + frac + exp)\<close> for the parts of a number literal.\<close>

definition json_float :: "rat \<Rightarrow> json" where
  "json_float x =
     (case to_double x of
        Finite r \<Rightarrow> JFloat r
      | PosInf \<Rightarrow> JInfinity
      | NegInf \<Rightarrow> JNegInfinity
      | NaN \<Rightarrow> JNaN)"

text \<open>
  The number pattern \<open>(-?(?:0|[1-9][0-9]*))(\.[0-9]+)?([eE][-+]?[0-9]+)?\<close> matched at the
  start of the text: an \<open>int\<close> when there is neither fraction nor exponent, a \<open>float\<close>
  otherwise; with the number of characters matched.
\<close>

definition lex_number :: "string \<Rightarrow> (token \<times> nat) option" where
  "lex_number s =
     (let neg = startswith ''-'' s;
          s1 = (if neg then tl s else s);
          ip = (if startswith ''0'' s1 then ''0'' else takeWhile is_digit s1);
          s2 = drop (length ip) s1;
          fr = (if startswith ''.'' s2 then takeWhile is_digit (tl s2) else []);
          s3 = (if fr = [] then s2 else drop (1 + length fr) s2);
          hasexp = (startswith ''e'' s3 \<or> startswith ''E'' s3);
          s4 = (if hasexp then tl s3 else s3);
          sg = (if startswith ''-'' s4 \<or> startswith ''+'' s4 then 1 else 0);
          ex = (if hasexp then takeWhile is_digit (drop sg s4) else []);
          eneg = startswith ''-'' s4;
          n = (if neg then 1 else 0) + length ip
                + (if fr = [] then 0 else 1 + length fr)
                + (if ex = [] then 0 else 1 + sg + length ex);
          m = (of_nat (dec_value (ip @ fr)) :: rat) / 10 ^ length fr;
          x = (if eneg then m / 10 ^ dec_value ex else m * 10 ^ dec_value ex)
      in if ip = [] then None
         else if fr = [] \<and> ex = [] then
           (if int_max_str_digits < length ip then Some (TBig, n)
            else Some (TValue (JInt (if neg then - int (dec_value ip) else int (dec_value ip))), n))
         else Some (TValue (json_float (if neg then - x else x)), n))"

text \<open>
  The scanner's dispatch on the next character, in the order of \<open>json.scanner\<close>: string,
  object, array, \<open>null\<close>, \<open>true\<close>, \<open>false\<close>, number, \<open>NaN\<close>, \<open>Infinity\<close>,
  \<open>-Infinity\<close>. White space between tokens is space, tab, line feed and carriage return.
\<close>

function tokenize :: "string \<Rightarrow> token list" where
  "tokenize [] = []"
| "tokenize (c # cs) =
     (if json_ws c then tokenize cs
      else if c = CHR 0x22 then
        (case scanstring cs of
           None \<Rightarrow> [TBad]
         | Some (str, n) \<Rightarrow> TValue (JString str) # tokenize (drop n cs))
      else if c = CHR ''{'' then TLBrace # tokenize cs
      else if c = CHR ''}'' then TRBrace # tokenize cs
      else if c = CHR ''['' then TLBracket # tokenize cs
      else if c = CHR '']'' then TRBracket # tokenize cs
      else if c = CHR '':'' then TColon # tokenize cs
      else if c = CHR '','' then TComma # tokenize cs
      else if startswith ''null'' (c # cs) then TValue JNull # tokenize (drop 3 cs)
      else if startswith ''true'' (c # cs) then TValue (JBool True) # tokenize (drop 3 cs)
      else if startswith ''false'' (c # cs) then TValue (JBool False) # tokenize (drop 4 cs)
      else
        (case lex_number (c # cs) of
           Some (t, n) \<Rightarrow> t # tokenize (drop (n - 1) cs)
         | None \<Rightarrow>
             if startswith ''NaN'' (c # cs) then TValue JNaN # tokenize (drop 2 cs)
             else if startswith ''Infinity'' (c # cs) then
               TValue JInfinity # tokenize (drop 7 cs)
             else if startswith ''-Infinity'' (c # cs) then
               TValue JNegInfinity # tokenize (drop 8 cs)
             else [TBad]))"
  by pat_completeness auto
termination
  by (relation "measure length") auto

subsection \<open>The grammar\<close>

text \<open>
  Values, arrays and objects are recognised with an explicit stack of the containers that
  are still open. \<open>FArr xs\<close> is an open array with the elements read so far, \<open>FObj kvs k\<close> an
  open object with its entries and the key that waits for its value.
\<close>

datatype frame = FArr "json list" | FObj "(nat list \<times> json) list" "nat list option"

datatype expect =
    XValue
  | XValueOrEnd
  | XKeyOrEnd
  | XKey
  | XColon
  | XCommaOrEnd
  | XDone json

text \<open>A value is complete: it goes to the innermost open container, or it is the result.\<close>

fun complete :: "frame list \<Rightarrow> json \<Rightarrow> error + frame list \<times> expect" where
  "complete [] v = Inr ([], XDone v)"
| "complete (FArr xs # fs) v = Inr (FArr (xs @ [v]) # fs, XCommaOrEnd)"
| "complete (FObj kvs (Some k) # fs) v = Inr (FObj (dict_set kvs k v) None # fs, XCommaOrEnd)"
| "complete (FObj kvs None # fs) v = Inl JSONDecodeError"

definition open_value :: "expect \<Rightarrow> bool" where
  "open_value x = (x = XValue \<or> x = XValueOrEnd)"

text \<open>
  One token. Where a value may start, an array or an object opens one more level, which
  raises \<open>RecursionError\<close> when \<open>recursion_limit\<close> levels are open already, and an integer
  literal that is too long raises \<open>ValueError\<close>; every token that the grammar does not
  allow at its place raises \<open>JSONDecodeError\<close>.
\<close>

definition step :: "frame list \<times> expect \<Rightarrow> token \<Rightarrow> error + frame list \<times> expect" where
  "step st t =
     (case st of (fs, x) \<Rightarrow>
        (case t of
           TValue v \<Rightarrow>
             if open_value x then complete fs v
             else if x = XKeyOrEnd \<or> x = XKey then
               (case (fs, v) of
                  (FObj kvs None # fs', JString k) \<Rightarrow> Inr (FObj kvs (Some k) # fs', XColon)
                | _ \<Rightarrow> Inl JSONDecodeError)
             else Inl JSONDecodeError
         | TBig \<Rightarrow> if open_value x then Inl ValueError else Inl JSONDecodeError
         | TBad \<Rightarrow> Inl JSONDecodeError
         | TLBracket \<Rightarrow>
             if open_value x then
               (if recursion_limit \<le> length fs then Inl RecursionError
                else Inr (FArr [] # fs, XValueOrEnd))
             else Inl JSONDecodeError
         | TLBrace \<Rightarrow>
             if open_value x then
               (if recursion_limit \<le> length fs then Inl RecursionError
                else Inr (FObj [] None # fs, XKeyOrEnd))
             else Inl JSONDecodeError
         | TRBracket \<Rightarrow>
             (case fs of
                FArr xs # fs' \<Rightarrow>
                  if x = XValueOrEnd \<or> x = XCommaOrEnd then complete fs' (JArray xs)
                  else Inl JSONDecodeError
              | _ \<Rightarrow> Inl JSONDecodeError)
         | TRBrace \<Rightarrow>
             (case fs of
                FObj kvs None # fs' \<Rightarrow>
                  if x = XKeyOrEnd \<or> x = XCommaOrEnd then complete fs' (JObject kvs)
                  else Inl JSONDecodeError
              | _ \<Rightarrow> Inl JSONDecodeError)
         | TComma \<Rightarrow>
             if x = XCommaOrEnd then
               (case fs of
                  FArr xs # fs' \<Rightarrow> Inr (fs, XValue)
                | FObj kvs None # fs' \<Rightarrow> Inr (fs, XKey)
                | _ \<Rightarrow> Inl JSONDecodeError)
             else Inl JSONDecodeError
         | TColon \<Rightarrow> if x = XColon then Inr (fs, XValue) else Inl JSONDecodeError))"

text \<open>The tokens in their order: the first exception ends the parse.\<close>

fun run :: "error + frame list \<times> expect \<Rightarrow> token list \<Rightarrow> error + frame list \<times> expect" where
  "run st [] = st"
| "run (Inl e) (t # ts) = Inl e"
| "run (Inr st) (t # ts) = run (step st t) ts"

text \<open>
  \<open>json.loads(s)\<close>: exactly one value, with white space allowed around it and between its
  tokens. A text that ends too early, or that goes on after its value, raises
  \<open>JSONDecodeError\<close>.
\<close>

definition json_loads :: "string \<Rightarrow> error + json" where
  "json_loads s =
     (case run (Inr ([], XValue)) (tokenize s) of
        Inl e \<Rightarrow> Inl e
      | Inr ([], XDone v) \<Rightarrow> Inr v
      | Inr _ \<Rightarrow> Inl JSONDecodeError)"

section \<open>\<open>analyzer.py\<close>: \<open>clean_json_string\<close>\<close>

text \<open>\<open>re.sub(r"```json|```", "", json_str)\<close>: scanning from the left, every match of the
  tagged marker, or else of the bare marker, is deleted.\<close>

function analyzer_sub :: "string \<Rightarrow> string" where
  "analyzer_sub [] = []"
| "analyzer_sub (c # cs) =
     (if startswith ''```json'' (c # cs) then analyzer_sub (drop 6 cs)
      else if startswith ''```'' (c # cs) then analyzer_sub (drop 2 cs)
      else c # analyzer_sub cs)"
  by pat_completeness auto
termination
  by (relation "measure length") auto

definition analyzer_strip :: "string \<Rightarrow> string" where
  "analyzer_strip json_str = py_strip (analyzer_sub json_str)"

text \<open>
  The \<open>for i, ch in enumerate(s)\<close> loop, with the characters still to visit as last
  argument. \<open>Some v\<close> is \<open>return v\<close> from inside the loop, \<open>None\<close> is the loop running
  to its end. \<open>depth\<close> is a Python \<open>int\<close> and may go below zero.
\<close>

fun analyzer_loop :: "string \<Rightarrow> nat \<Rightarrow> nat option \<Rightarrow> int \<Rightarrow> string \<Rightarrow> json option" where
  "analyzer_loop s i start depth [] = None"
| "analyzer_loop s i start depth (ch # rest) =
     (if ch = CHR ''{'' then
        analyzer_loop s (i + 1) (if start = None then Some i else start) (depth + 1) rest
      else if ch = CHR ''}'' then
        (if depth - 1 = 0 \<and> start \<noteq> None then
           (case json_loads (slice s (the start) (i + 1)) of
              Inr v \<Rightarrow> Some v
            | Inl e \<Rightarrow> analyzer_loop s (i + 1) None 0 rest)
         else analyzer_loop s (i + 1) start (depth - 1) rest)
      else analyzer_loop s (i + 1) start depth rest)"

definition analyzer_scan :: "string \<Rightarrow> json option" where
  "analyzer_scan s = analyzer_loop s 0 None 0 s"

text \<open>The function returns \<open>None\<close>, which is \<open>JNull\<close>, when nothing parses; it has no
  \<open>raise\<close>, and its two \<open>except Exception\<close> catch whatever \<open>json.loads\<close> raises.\<close>

definition analyzer_clean_json_string :: "string \<Rightarrow> error + json" where
  "analyzer_clean_json_string json_str =
     (if json_str = [] then Inr JNull
      else
        (let s = analyzer_strip json_str
         in case analyzer_scan s of
              Some v \<Rightarrow> Inr v
            | None \<Rightarrow>
                (case json_loads s of
                   Inr v \<Rightarrow> Inr v
                 | Inl e \<Rightarrow> Inr JNull)))"

section \<open>\<open>scraper_ia_pdf_a_json.py\<close>: \<open>clean_json_string\<close>\<close>

text \<open>\<open>re.sub(marker + r'\s*', '', json_str)\<close>: every match of the marker is deleted
  together with the white space that follows it.\<close>

function re_sub_ws :: "string \<Rightarrow> string \<Rightarrow> string" where
  "re_sub_ws marker [] = []"
| "re_sub_ws marker (c # cs) =
     (if marker \<noteq> [] \<and> startswith marker (c # cs) then
        re_sub_ws marker (dropWhile py_isspace (drop (length marker - 1) cs))
      else c # re_sub_ws marker cs)"
  by pat_completeness auto
termination
  by (relation "measure (\<lambda>(marker, s). length s)")
     (auto intro: le_less_trans [OF length_dropWhile_le])

definition scraper_strip :: "string \<Rightarrow> string" where
  "scraper_strip json_str = py_strip (re_sub_ws ''```'' (re_sub_ws ''```json'' json_str))"

text \<open>
  The loop over \<open>enumerate(json_str)\<close>. \<open>stack\<close> holds one \<open>{\<close> for each brace that is
  open, \<open>start_idx\<close> is \<open>-1\<close> until a brace opens. \<open>Inr (Some v)\<close> is \<open>return v\<close> from
  inside the loop, \<open>Inr None\<close> is the loop running to its end. The \<open>except\<close> clause
  names \<open>json.JSONDecodeError\<close>: after that exception \<open>continue\<close> goes on with the next
  character, and any other exception leaves the function.
\<close>

fun scraper_loop :: "string \<Rightarrow> nat \<Rightarrow> string \<Rightarrow> int \<Rightarrow> string \<Rightarrow> error + json option" where
  "scraper_loop s i stack start_idx [] = Inr None"
| "scraper_loop s i stack start_idx (ch # rest) =
     (if ch = CHR ''{'' then
        scraper_loop s (i + 1) (stack @ ''{'') (if stack = [] then int i else start_idx) rest
      else if ch = CHR ''}'' then
        (if stack \<noteq> [] then
           (if butlast stack = [] \<and> start_idx \<noteq> - 1 then
              (case json_loads (slice s (nat start_idx) (i + 1)) of
                 Inr v \<Rightarrow> Inr (Some v)
               | Inl e \<Rightarrow>
                   if e = JSONDecodeError then
                     scraper_loop s (i + 1) (butlast stack) start_idx rest
                   else Inl e)
            else scraper_loop s (i + 1) (butlast stack) start_idx rest)
         else scraper_loop s (i + 1) stack start_idx rest)
      else scraper_loop s (i + 1) stack start_idx rest)"

definition scraper_scan :: "string \<Rightarrow> error + json option" where
  "scraper_scan s = scraper_loop s 0 [] (- 1) s"

text \<open>The whole text is tried first, and only \<open>json.JSONDecodeError\<close> is caught there
  too; when nothing parses the function raises \<open>JSONDecodeError\<close> itself.\<close>

definition scraper_clean_json_string :: "string \<Rightarrow> error + json" where
  "scraper_clean_json_string json_str =
     (let s = scraper_strip json_str
      in case json_loads s of
           Inr v \<Rightarrow> Inr v
         | Inl e \<Rightarrow>
             if e = JSONDecodeError then
               (case scraper_scan s of
                  Inr (Some v) \<Rightarrow> Inr v
                | Inr None \<Rightarrow> Inl JSONDecodeError
                | Inl e' \<Rightarrow> Inl e')
             else Inl e)"

section \<open>\<open>cleaner.py\<close>: \<open>to_number_simple\<close>\<close>

text \<open>
  The argument is any Python object: \<open>None\<close>, a \<open>bool\<close> (an \<open>int\<close> for \<open>isinstance\<close>),
  an \<open>int\<close>, a \<open>float\<close>, a \<open>str\<close>, or another object given by its \<open>str()\<close>.
\<close>

datatype pyval = PNone | PBool bool | PInt int | PFloat pyfloat | PStr string | PObj string

text \<open>\<open>float(i)\<close> on an \<open>int\<close> is the nearest double, and raises \<open>OverflowError\<close> when
  \<open>i\<close> rounds to a magnitude of \<open>2 ^ 1024\<close> or more.\<close>

definition float_of_int :: "int \<Rightarrow> error + pyfloat" where
  "float_of_int i =
     (if 2 ^ 1024 - 2 ^ 970 \<le> \<bar>i\<bar> then Inl OverflowError else Inr (to_double (of_int i)))"

text \<open>\<open>str.lower\<close> on one character: A-Z, and the capital letters 0xC0-0xDE (0xD7, the
  multiplication sign, is none) go to the letter 32 places up.\<close>

definition upper_chars :: string where
  "upper_chars = ''ABCDEFGHIJKLMNOPQRSTUVWXYZ'' @
     [CHR 0xC0, CHR 0xC1, CHR 0xC2, CHR 0xC3, CHR 0xC4, CHR 0xC5, CHR 0xC6, CHR 0xC7,
      CHR 0xC8, CHR 0xC9, CHR 0xCA, CHR 0xCB, CHR 0xCC, CHR 0xCD, CHR 0xCE, CHR 0xCF,
      CHR 0xD0, CHR 0xD1, CHR 0xD2, CHR 0xD3, CHR 0xD4, CHR 0xD5, CHR 0xD6, CHR 0xD8,
      CHR 0xD9, CHR 0xDA, CHR 0xDB, CHR 0xDC, CHR 0xDD, CHR 0xDE]"

definition lower_chars :: string where
  "lower_chars = ''abcdefghijklmnopqrstuvwxyz'' @
     [CHR 0xE0, CHR 0xE1, CHR 0xE2, CHR 0xE3, CHR 0xE4, CHR 0xE5, CHR 0xE6, CHR 0xE7,
      CHR 0xE8, CHR 0xE9, CHR 0xEA, CHR 0xEB, CHR 0xEC, CHR 0xED, CHR 0xEE, CHR 0xEF,
      CHR 0xF0, CHR 0xF1, CHR 0xF2, CHR 0xF3, CHR 0xF4, CHR 0xF5, CHR 0xF6, CHR 0xF8,
      CHR 0xF9, CHR 0xFA, CHR 0xFB, CHR 0xFC, CHR 0xFD, CHR 0xFE]"

definition py_lower :: "char \<Rightarrow> char" where
  "py_lower c = (case map_of (zip upper_chars lower_chars) c of Some l \<Rightarrow> l | None \<Rightarrow> c)"

text \<open>\<open>(\d+(\.\d+)?)\<close> matched at the start of the text: group 1 and the text after it.\<close>

definition match_number :: "string \<Rightarrow> (string \<times> string) option" where
  "match_number s =
     (let ds = takeWhile is_digit s;
          r = dropWhile is_digit s
      in if ds = [] then None
         else if startswith ''.'' r \<and> takeWhile is_digit (tl r) \<noteq> [] then
           Some (ds @ ''.'' @ takeWhile is_digit (tl r), dropWhile is_digit (tl r))
         else Some (ds, r))"

text \<open>\<open>re.search(r'(\d+(\.\d+)?)\s*' + unit, s)\<close>: group 1 of the leftmost match. After
  the digits only the longest number and the longest run of white space can be followed by
  the unit, so no shorter alternative is tried.\<close>

fun search_unit :: "string \<Rightarrow> string \<Rightarrow> string option" where
  "search_unit unit [] = None"
| "search_unit unit (c # cs) =
     (case match_number (c # cs) of
        Some (g, r) \<Rightarrow>
          if startswith unit (dropWhile py_isspace r) then Some g else search_unit unit cs
      | None \<Rightarrow> search_unit unit cs)"

text \<open>\<open>float(g)\<close> for a group \<open>g\<close> of digits with an optional fraction: the double
  nearest to the decimal number, \<open>inf\<close> when that is out of range.\<close>

definition float_of_group :: "string \<Rightarrow> pyfloat" where
  "float_of_group g =
     (let ip = takeWhile is_digit g;
          fr = drop (length ip + 1) g
      in to_double (of_nat (dec_value (ip @ fr)) / 10 ^ length fr))"

definition to_number_str :: "string \<Rightarrow> pyfloat option" where
  "to_number_str t =
     (let s = py_strip (filter (\<lambda>c. c \<noteq> CHR '','') (map py_lower t))
      in if s \<in> set ['''', ''null'', ''none'', ''-''] then None
         else
           (case search_unit ''mill'' s of
              Some g \<Rightarrow> Some (fmul (float_of_group g) 1000000)
            | None \<Rightarrow>
                (case search_unit ''mil'' s of
                   Some g \<Rightarrow> Some (fmul (float_of_group g) 1000)
                 | None \<Rightarrow>
                     (case search_unit [] s of
                        Some g \<Rightarrow> Some (float_of_group g)
                      | None \<Rightarrow> None))))"

fun to_number_simple :: "pyval \<Rightarrow> error + pyfloat option" where
  "to_number_simple PNone = Inr None"
| "to_number_simple (PBool b) = Inr (Some (Finite (if b then 1 else 0)))"
| "to_number_simple (PInt i) =
     (case float_of_int i of Inl e \<Rightarrow> Inl e | Inr x \<Rightarrow> Inr (Some x))"
| "to_number_simple (PFloat x) = Inr (Some x)"
| "to_number_simple (PStr t) = Inr (to_number_str t)"
| "to_number_simple (PObj t) = Inr (to_number_str t)"

section \<open>Notions of the specification\<close>

text \<open>Text without braces: prose that leaves the scanner's state as it is.\<close>

definition braceless :: "string \<Rightarrow> bool" where
  "braceless t = (CHR ''{'' \<notin> set t \<and> CHR ''}'' \<notin> set t)"

text \<open>
  A candidate span is a substring between a \<open>{\<close> where the nesting depth leaves zero and
  the \<open>}\<close> where it returns to zero. \<open>span_body d t\<close>: counting every brace of \<open>t\<close> from
  depth \<open>d\<close>, the depth reaches zero at the last character of \<open>t\<close> and not before.
\<close>

fun span_body :: "int \<Rightarrow> string \<Rightarrow> bool" where
  "span_body d [] = False"
| "span_body d (c # cs) =
     (if c = CHR ''{'' then span_body (d + 1) cs
      else if c = CHR ''}'' then (if d - 1 = 0 then cs = [] else span_body (d - 1) cs)
      else span_body d cs)"

fun candidate_span :: "string \<Rightarrow> bool" where
  "candidate_span [] = False"
| "candidate_span (c # cs) = (c = CHR ''{'' \<and> span_body 1 cs)"

text \<open>\<open>stays_open d t\<close>: counting every brace of \<open>t\<close> from depth \<open>d\<close>, the depth never
  returns to zero.\<close>

fun stays_open :: "int \<Rightarrow> string \<Rightarrow> bool" where
  "stays_open d [] = True"
| "stays_open d (c # cs) =
     (if c = CHR ''{'' then stays_open (d + 1) cs
      else if c = CHR ''}'' then 1 < d \<and> stays_open (d - 1) cs
      else stays_open d cs)"

text \<open>
  Candidates that are tried and rejected, each after some prose: \<open>junk\<close> is the text they
  make, \<open>all_rejected\<close> says that each is a candidate span that is not strict JSON.
\<close>

fun junk :: "(string \<times> string) list \<Rightarrow> string" where
  "junk [] = []"
| "junk ((noise, bad) # sk) = noise @ bad @ junk sk"

fun all_rejected :: "(string \<times> string) list \<Rightarrow> bool" where
  "all_rejected [] = True"
| "all_rejected ((noise, bad) # sk) =
     (braceless noise \<and> candidate_span bad \<and> isl (json_loads bad) \<and> all_rejected sk)"

text \<open>The first exception among them that is not a \<open>JSONDecodeError\<close>, if there is one:
  the scraper does not catch it.\<close>

fun raised :: "(string \<times> string) list \<Rightarrow> error option" where
  "raised [] = None"
| "raised ((noise, bad) # sk) =
     (case json_loads bad of
        Inr v \<Rightarrow> raised sk
      | Inl e \<Rightarrow> if e = JSONDecodeError then raised sk else Some e)"

text \<open>
  Candidate spans between prose without braces, and what the two loops make of a list of
  candidates that they try one after the other: \<open>analyzer.py\<close> returns the first that
  parses and skips every other; the scraper skips a candidate that raises
  \<open>JSONDecodeError\<close> and lets any other exception out.
\<close>

fun spans_in_prose :: "(string \<times> string) list \<Rightarrow> bool" where
  "spans_in_prose [] = True"
| "spans_in_prose ((noise, b) # sk) = (braceless noise \<and> candidate_span b \<and> spans_in_prose sk)"

fun analyzer_tries :: "string list \<Rightarrow> json option" where
  "analyzer_tries [] = None"
| "analyzer_tries (b # bs) =
     (case json_loads b of Inr v \<Rightarrow> Some v | Inl e \<Rightarrow> analyzer_tries bs)"

fun scraper_tries :: "string list \<Rightarrow> error + json option" where
  "scraper_tries [] = Inr None"
| "scraper_tries (b # bs) =
     (case json_loads b of
        Inr v \<Rightarrow> Inr (Some v)
      | Inl e \<Rightarrow> if e = JSONDecodeError then scraper_tries bs else Inl e)"

text \<open>A text in which both scans find nothing to try: it has no \<open>{\<close>, or its first
  \<open>{\<close> comes after prose without braces and is never closed.\<close>

fun no_candidate :: "string \<Rightarrow> bool" where
  "no_candidate [] = True"
| "no_candidate (c # cs) =
     (if c = CHR ''{'' then stays_open 1 cs
      else if c = CHR ''}'' then CHR ''{'' \<notin> set cs
      else no_candidate cs)"

text \<open>A fence marker occurs in the text.\<close>

fun has_marker :: "string \<Rightarrow> bool" where
  "has_marker [] = False"
| "has_marker (c # cs) = (startswith ''```'' (c # cs) \<or> has_marker cs)"




section \<open>Evaluation on concrete texts\<close>

lemma floor_numeral_div: "\<lfloor>(numeral a :: rat) / numeral b\<rfloor> = numeral a div numeral b"
  using floor_divide_of_int_eq [of "numeral a" "numeral b", where ?'a = rat] by simp

lemma floor_one_div: "\<lfloor>(1 :: rat) / numeral b\<rfloor> = 1 div numeral b"
  using floor_divide_of_int_eq [of 1 "numeral b", where ?'a = rat] by simp

lemmas float_eval =
  to_double_def round_pos_def exponent_def pow2_def round_even_def halvings.simps
  doublings.simps fmul_def Let_def floor_numeral_div floor_one_div

lemmas json_eval =
  json_loads_def startswith_def json_ws_def lex_number_def is_digit_def dec_value_def
  digit_val_def put_def Let_def step_def open_value_def backslash_def
  decode_uXXXX_def hex_val_def recursion_limit_def int_max_str_digits_def json_float_def
  float_eval

lemmas text_eval =
  py_strip_def py_isspace_def slice_def startswith_def analyzer_strip_def scraper_strip_def
  analyzer_scan_def scraper_scan_def

section \<open>The two scanners on prose and on candidate spans\<close>

lemma analyzer_loop_braceless:
  "braceless pre \<Longrightarrow>
   analyzer_loop s i st d (pre @ rest) = analyzer_loop s (i + length pre) st d rest"
  by (induction pre arbitrary: i) (auto simp: braceless_def)

lemma analyzer_loop_span:
  "span_body d body \<Longrightarrow> 1 \<le> d \<Longrightarrow>
   analyzer_loop s j (Some k) d (body @ rest) =
     (case json_loads (slice s k (j + length body)) of
        Inr v \<Rightarrow> Some v
      | Inl e \<Rightarrow> analyzer_loop s (j + length body) None 0 rest)"
proof (induction body arbitrary: d j)
  case Nil
  then show ?case by simp
next
  case (Cons c cs)
  show ?case
  proof (cases "c = CHR ''{''")
    case True
    with Cons.prems have "span_body (d + 1) cs" by simp
    from Cons.IH [OF this, of "j + 1"] Cons.prems True show ?thesis by (simp split: sum.split)
  next
    case False
    show ?thesis
    proof (cases "c = CHR ''}''")
      case close: True
      show ?thesis
      proof (cases "d - 1 = 0")
        case True
        with Cons.prems close have "cs = []" by simp
        with True close show ?thesis by (simp split: sum.split)
      next
        case neq: False
        with Cons.prems close have sb: "span_body (d - 1) cs" and d: "1 \<le> d - 1" by auto
        from Cons.IH [OF sb d, of "j + 1"] close neq show ?thesis by (simp split: sum.split)
      qed
    next
      case other: False
      with False Cons.prems have "span_body d cs" by simp
      from Cons.IH [OF this, of "j + 1"] Cons.prems False other show ?thesis by (simp split: sum.split)
    qed
  qed
qed

lemma slice_middle: "slice (a @ c @ rest) (length a) (length a + length c) = c"
  by (simp add: slice_def)

lemma analyzer_loop_candidate:
  assumes "candidate_span c"
  shows "analyzer_loop (a @ c @ rest) (length a) None 0 (c @ rest) =
     (case json_loads c of
        Inr v \<Rightarrow> Some v
      | Inl e \<Rightarrow> analyzer_loop (a @ c @ rest) (length a + length c) None 0 rest)"
proof -
  from assms obtain body where c: "c = CHR ''{'' # body" and sb: "span_body 1 body"
    by (cases c) auto
  have "analyzer_loop (a @ c @ rest) (length a) None 0 (c @ rest) =
        analyzer_loop (a @ c @ rest) (length a + 1) (Some (length a)) 1 (body @ rest)"
    by (simp add: c)
  also have "\<dots> = (case json_loads (slice (a @ c @ rest) (length a) (length a + 1 + length body)) of
        Inr v \<Rightarrow> Some v
      | Inl e \<Rightarrow> analyzer_loop (a @ c @ rest) (length a + 1 + length body) None 0 rest)"
    by (rule analyzer_loop_span [OF sb]) simp
  also have "length a + 1 + length body = length a + length c" by (simp add: c)
  finally show ?thesis by (simp only: slice_middle)
qed

lemma scraper_loop_braceless:
  "braceless pre \<Longrightarrow>
   scraper_loop s i stk si (pre @ rest) = scraper_loop s (i + length pre) stk si rest"
  by (induction pre arbitrary: i) (auto simp: braceless_def)

lemma butlast_empty_iff: "butlast xs = [] \<longleftrightarrow> length xs \<le> 1"
  by (cases xs rule: rev_cases) auto

lemma scraper_loop_span:
  "span_body d body \<Longrightarrow> 1 \<le> d \<Longrightarrow> length stk = nat d \<Longrightarrow>
   scraper_loop s j stk (int k) (body @ rest) =
     (case json_loads (slice s k (j + length body)) of
        Inr v \<Rightarrow> Inr (Some v)
      | Inl e \<Rightarrow>
          if e = JSONDecodeError then scraper_loop s (j + length body) [] (int k) rest
          else Inl e)"
proof (induction body arbitrary: d j stk)
  case Nil
  then show ?case by simp
next
  case (Cons c cs)
  from Cons.prems have ne: "stk \<noteq> []" by auto
  show ?case
  proof (cases "c = CHR ''{''")
    case True
    with Cons.prems have sb: "span_body (d + 1) cs" by simp
    from Cons.prems have len: "length (stk @ ''{'') = nat (d + 1)" by simp
    from Cons.IH [OF sb _ len, of "j + 1"] Cons.prems True ne show ?thesis
      by (simp split: sum.split)
  next
    case False
    show ?thesis
    proof (cases "c = CHR ''}''")
      case close: True
      show ?thesis
      proof (cases "d - 1 = 0")
        case True
        with Cons.prems close have "cs = []" by simp
        moreover from True Cons.prems have "butlast stk = []"
          by (simp add: butlast_empty_iff)
        ultimately show ?thesis using close ne by (simp split: sum.split)
      next
        case neq: False
        with Cons.prems close have sb: "span_body (d - 1) cs" and d: "1 \<le> d - 1" by auto
        from Cons.prems d have len: "length (butlast stk) = nat (d - 1)" by simp
        from d Cons.prems have "butlast stk \<noteq> []" by (simp add: butlast_empty_iff)
        with Cons.IH [OF sb d len, of "j + 1"] close ne show ?thesis
          by (simp split: sum.split)
      qed
    next
      case other: False
      with False Cons.prems have "span_body d cs" by simp
      from Cons.IH [OF this, of stk "j + 1"] Cons.prems False other show ?thesis
        by (simp split: sum.split)
    qed
  qed
qed

lemma scraper_loop_candidate:
  assumes "candidate_span c"
  shows "scraper_loop (a @ c @ rest) (length a) [] si (c @ rest) =
     (case json_loads c of
        Inr v \<Rightarrow> Inr (Some v)
      | Inl e \<Rightarrow>
          if e = JSONDecodeError then
            scraper_loop (a @ c @ rest) (length a + length c) [] (int (length a)) rest
          else Inl e)"
proof -
  from assms obtain body where c: "c = CHR ''{'' # body" and sb: "span_body 1 body"
    by (cases c) auto
  have "scraper_loop (a @ c @ rest) (length a) [] si (c @ rest) =
        scraper_loop (a @ c @ rest) (length a + 1) ''{'' (int (length a)) (body @ rest)"
    by (simp add: c)
  also have "\<dots> = (case json_loads (slice (a @ c @ rest) (length a) (length a + 1 + length body)) of
        Inr v \<Rightarrow> Inr (Some v)
      | Inl e \<Rightarrow>
          if e = JSONDecodeError then
            scraper_loop (a @ c @ rest) (length a + 1 + length body) [] (int (length a)) rest
          else Inl e)"
    by (rule scraper_loop_span [OF sb]) simp_all
  also have "length a + 1 + length body = length a + length c" by (simp add: c)
  finally show ?thesis by (simp only: slice_middle)
qed

text \<open>Candidate spans between prose: each loop tries them in their order, and is in its
  initial state after each one that it skips.\<close>

lemma analyzer_loop_spans:
  "spans_in_prose sk \<Longrightarrow>
   analyzer_loop (a @ junk sk @ t) (length a) None 0 (junk sk @ t) =
     (case analyzer_tries (map snd sk) of
        Some v \<Rightarrow> Some v
      | None \<Rightarrow> analyzer_loop (a @ junk sk @ t) (length a + length (junk sk)) None 0 t)"
proof (induction sk arbitrary: a)
  case Nil
  then show ?case by simp
next
  case (Cons p sk)
  obtain n b where p: "p = (n, b)" by (cases p)
  from Cons.prems p have n: "braceless n" and b: "candidate_span b"
    and rest: "spans_in_prose sk" by simp_all
  let ?s = "a @ junk (p # sk) @ t"
  have "analyzer_loop ?s (length a) None 0 (junk (p # sk) @ t) =
        analyzer_loop ?s (length (a @ n)) None 0 (b @ junk sk @ t)"
    using analyzer_loop_braceless [OF n, of ?s "length a" None 0 "b @ junk sk @ t"]
    by (simp add: p)
  also have "\<dots> = (case json_loads b of
        Inr v \<Rightarrow> Some v
      | Inl e \<Rightarrow> analyzer_loop ?s (length (a @ n) + length b) None 0 (junk sk @ t))"
    using analyzer_loop_candidate [OF b, of "a @ n" "junk sk @ t"]
    by (simp add: p split: sum.split)
  finally have first: "analyzer_loop ?s (length a) None 0 (junk (p # sk) @ t) =
      (case json_loads b of
        Inr v \<Rightarrow> Some v
      | Inl e \<Rightarrow> analyzer_loop ?s (length (a @ n @ b)) None 0 (junk sk @ t))"
    by (simp add: add.assoc split: sum.split)
  show ?case
  proof (cases "json_loads b")
    case (Inr v)
    with first show ?thesis by (simp add: p)
  next
    case (Inl e)
    from Cons.IH [OF rest, of "a @ n @ b"] Inl first show ?thesis
      by (simp add: p add.assoc split: option.split)
  qed
qed

lemma scraper_loop_spans:
  "spans_in_prose sk \<Longrightarrow>
   \<exists>si'. scraper_loop (a @ junk sk @ t) (length a) [] si (junk sk @ t) =
     (case scraper_tries (map snd sk) of
        Inr None \<Rightarrow> scraper_loop (a @ junk sk @ t) (length a + length (junk sk)) [] si' t
      | Inr (Some v) \<Rightarrow> Inr (Some v)
      | Inl e \<Rightarrow> Inl e)"
proof (induction sk arbitrary: a si)
  case Nil
  then show ?case by auto
next
  case (Cons p sk)
  obtain n b where p: "p = (n, b)" by (cases p)
  from Cons.prems p have n: "braceless n" and b: "candidate_span b"
    and rest: "spans_in_prose sk" by simp_all
  let ?s = "a @ junk (p # sk) @ t"
  have "scraper_loop ?s (length a) [] si (junk (p # sk) @ t) =
        scraper_loop ?s (length (a @ n)) [] si (b @ junk sk @ t)"
    using scraper_loop_braceless [OF n, of ?s "length a" "[]" si "b @ junk sk @ t"]
    by (simp add: p)
  also have "\<dots> = (case json_loads b of
        Inr v \<Rightarrow> Inr (Some v)
      | Inl e \<Rightarrow>
          if e = JSONDecodeError then
            scraper_loop ?s (length (a @ n) + length b) [] (int (length (a @ n))) (junk sk @ t)
          else Inl e)"
    using scraper_loop_candidate [OF b, of "a @ n" "junk sk @ t" si]
    by (simp add: p split: sum.split)
  finally have first: "scraper_loop ?s (length a) [] si (junk (p # sk) @ t) =
      (case json_loads b of
        Inr v \<Rightarrow> Inr (Some v)
      | Inl e \<Rightarrow>
          if e = JSONDecodeError then
            scraper_loop ?s (length (a @ n @ b)) [] (int (length (a @ n))) (junk sk @ t)
          else Inl e)"
    by (simp add: add.assoc split: sum.split)
  show ?case
  proof (cases "json_loads b = Inl JSONDecodeError")
    case False
    with first show ?thesis by (auto simp: p split: sum.splits)
  next
    case True
    from Cons.IH [OF rest, of "a @ n @ b" "int (length (a @ n))"]
    obtain si' where "scraper_loop ((a @ n @ b) @ junk sk @ t) (length (a @ n @ b)) []
          (int (length (a @ n))) (junk sk @ t) =
        (case scraper_tries (map snd sk) of
           Inr None \<Rightarrow>
             scraper_loop ((a @ n @ b) @ junk sk @ t) (length (a @ n @ b) + length (junk sk)) [] si' t
         | Inr (Some v) \<Rightarrow> Inr (Some v)
         | Inl e \<Rightarrow> Inl e)"
      by blast
    with first True have "scraper_loop ?s (length a) [] si (junk (p # sk) @ t) =
        (case scraper_tries (map snd (p # sk)) of
           Inr None \<Rightarrow> scraper_loop ?s (length a + length (junk (p # sk))) [] si' t
         | Inr (Some v) \<Rightarrow> Inr (Some v)
         | Inl e \<Rightarrow> Inl e)"
      by (simp add: p add.assoc split: sum.split option.split)
    then show ?thesis by blast
  qed
qed

lemma all_rejected_spans: "all_rejected sk \<Longrightarrow> spans_in_prose sk"
  by (induction sk) auto

lemma all_rejected_analyzer: "all_rejected sk \<Longrightarrow> analyzer_tries (map snd sk) = None"
  by (induction sk) (auto simp: isl_def)

lemma all_rejected_scraper:
  "all_rejected sk \<Longrightarrow>
   scraper_tries (map snd sk) = (case raised sk of None \<Rightarrow> Inr None | Some e \<Rightarrow> Inl e)"
  by (induction sk) (auto simp: isl_def)

lemma analyzer_loop_junk:
  "all_rejected sk \<Longrightarrow>
   analyzer_loop (a @ junk sk @ t) (length a) None 0 (junk sk @ t) =
   analyzer_loop (a @ junk sk @ t) (length a + length (junk sk)) None 0 t"
  using analyzer_loop_spans [OF all_rejected_spans, of sk a t]
  by (simp add: all_rejected_analyzer)

lemma scraper_loop_junk:
  assumes "all_rejected sk"
  shows "\<exists>si'. scraper_loop (a @ junk sk @ t) (length a) [] si (junk sk @ t) =
     (case raised sk of
        None \<Rightarrow> scraper_loop (a @ junk sk @ t) (length a + length (junk sk)) [] si' t
      | Some e \<Rightarrow> Inl e)"
  using scraper_loop_spans [OF all_rejected_spans [OF assms], of a t si]
  by (auto simp: all_rejected_scraper [OF assms] split: option.splits)

lemma analyzer_scan_first_valid:
  assumes "all_rejected sk" "braceless pre" "candidate_span c" "json_loads c = Inr v"
  shows "analyzer_scan (junk sk @ pre @ c @ rest) = Some v"
proof -
  let ?s = "junk sk @ pre @ c @ rest"
  have "analyzer_scan ?s = analyzer_loop ?s (length (junk sk)) None 0 (pre @ c @ rest)"
    using analyzer_loop_junk [OF assms(1), of "[]" "pre @ c @ rest"]
    by (simp add: analyzer_scan_def)
  also have "\<dots> = analyzer_loop ?s (length (junk sk @ pre)) None 0 (c @ rest)"
    using analyzer_loop_braceless [OF assms(2)] by simp
  also have "\<dots> = Some v"
    using analyzer_loop_candidate [OF assms(3), of "junk sk @ pre" rest] assms(4) by simp
  finally show ?thesis .
qed

lemma scraper_scan_first_valid:
  assumes "all_rejected sk" "braceless pre" "candidate_span c" "json_loads c = Inr v"
  shows "scraper_scan (junk sk @ pre @ c @ rest) =
    (case raised sk of None \<Rightarrow> Inr (Some v) | Some e \<Rightarrow> Inl e)"
proof (cases "raised sk")
  case (Some e)
  with scraper_loop_junk [OF assms(1), of "[]" "pre @ c @ rest" "- 1"]
  show ?thesis by (simp add: scraper_scan_def)
next
  case None
  let ?s = "junk sk @ pre @ c @ rest"
  from scraper_loop_junk [OF assms(1), of "[]" "pre @ c @ rest" "- 1"] None
  obtain si' where "scraper_scan ?s = scraper_loop ?s (length (junk sk)) [] si' (pre @ c @ rest)"
    by (auto simp: scraper_scan_def)
  also have "\<dots> = scraper_loop ?s (length (junk sk @ pre)) [] si' (c @ rest)"
    using scraper_loop_braceless [OF assms(2)] by simp
  also have "\<dots> = Inr (Some v)"
    using scraper_loop_candidate [OF assms(3), of "junk sk @ pre" rest si'] assms(4) by simp
  finally show ?thesis using None by simp
qed

lemma py_strip_Nil [simp]: "py_strip [] = []"
  by (simp add: py_strip_def)

lemma analyzer_sub_Nil_strip: "analyzer_strip [] = []"
  by (simp add: analyzer_strip_def)

section \<open>From the scans to the two functions\<close>

lemma analyzer_scan_Nil [simp]: "analyzer_scan [] = None"
  by (simp add: analyzer_scan_def)

lemma scraper_scan_Nil [simp]: "scraper_scan [] = Inr None"
  by (simp add: scraper_scan_def)

lemma json_loads_Nil [simp]: "json_loads [] = Inl JSONDecodeError"
  by (simp add: json_loads_def)

lemma scraper_strip_Nil [simp]: "scraper_strip [] = []"
  by (simp add: scraper_strip_def)

lemma analyzer_strip_Nil [simp]: "analyzer_strip [] = []"
  by (rule analyzer_sub_Nil_strip)

lemma analyzer_clean_of_scan:
  assumes "analyzer_scan s = Some v" and "analyzer_strip inp = s"
  shows "analyzer_clean_json_string inp = Inr v"
proof -
  from assms have "inp \<noteq> []" by auto
  with assms show ?thesis by (simp add: analyzer_clean_json_string_def)
qed

lemma analyzer_clean_no_scan:
  assumes "analyzer_scan s = None" and "analyzer_strip inp = s"
  shows "analyzer_clean_json_string inp = (case json_loads s of Inr v \<Rightarrow> Inr v | Inl e \<Rightarrow> Inr JNull)"
proof (cases "inp = []")
  case True
  with assms show ?thesis by (auto simp: analyzer_clean_json_string_def)
next
  case False
  with assms show ?thesis by (simp add: analyzer_clean_json_string_def)
qed

text \<open>The scraper's loop raises what \<open>json.loads\<close> raised and did not catch: never a
  \<open>JSONDecodeError\<close>.\<close>

lemma scraper_loop_quiet: "scraper_loop s i stk si t \<noteq> Inl JSONDecodeError"
  by (induction s i stk si t rule: scraper_loop.induct) (auto split: sum.splits)

lemma scraper_scan_quiet: "scraper_scan s \<noteq> Inl JSONDecodeError"
  by (simp add: scraper_scan_def scraper_loop_quiet)

section \<open>First valid wins\<close>

text \<open>
  Claim C1, as amended. Let the stripped text be any number of candidate spans that
  \<open>json.loads\<close> rejects, each after prose without braces, then prose without braces, then
  a candidate span \<open>c\<close> that parses as strict JSON to \<open>v\<close>, then anything. The scan of
  \<open>analyzer.py\<close> returns \<open>v\<close>, whatever follows \<open>c\<close>: the first candidate that parses is
  returned and no later one is tried; so does \<open>clean_json_string\<close> of \<open>analyzer.py\<close>.
  The scan of the scraper returns \<open>v\<close> when every rejected candidate raised
  \<open>JSONDecodeError\<close>, and otherwise lets out the first other exception. The scraper
  reaches its scan when the whole text raises \<open>JSONDecodeError\<close>; when the whole text
  parses it returns that parse, and it lets any other exception out. On \<open>{"a":1}{"b":2}\<close>
  both return \<open>{"a":1}\<close>.
\<close>

theorem first_valid_wins:
  assumes "all_rejected skipped" and "braceless pre" and "candidate_span c"
    and "json_loads c = Inr v" and "s = junk skipped @ pre @ c @ rest"
  shows "analyzer_scan s = Some v
    \<and> scraper_scan s = (case raised skipped of None \<Rightarrow> Inr (Some v) | Some e \<Rightarrow> Inl e)
    \<and> (analyzer_strip inp = s \<longrightarrow> analyzer_clean_json_string inp = Inr v)
    \<and> (scraper_strip inp = s \<longrightarrow>
         scraper_clean_json_string inp =
           (case json_loads s of
              Inr w \<Rightarrow> Inr w
            | Inl e \<Rightarrow>
                if e = JSONDecodeError then
                  (case raised skipped of None \<Rightarrow> Inr v | Some e' \<Rightarrow> Inl e')
                else Inl e))"
proof -
  have a: "analyzer_scan s = Some v"
    unfolding assms(5) by (rule analyzer_scan_first_valid [OF assms(1-4)])
  have b: "scraper_scan s = (case raised skipped of None \<Rightarrow> Inr (Some v) | Some e \<Rightarrow> Inl e)"
    unfolding assms(5) by (rule scraper_scan_first_valid [OF assms(1-4)])
  have "analyzer_clean_json_string inp = Inr v" if "analyzer_strip inp = s"
    using a that by (rule analyzer_clean_of_scan)
  moreover have "scraper_clean_json_string inp =
      (case json_loads s of
         Inr w \<Rightarrow> Inr w
       | Inl e \<Rightarrow>
           if e = JSONDecodeError then
             (case raised skipped of None \<Rightarrow> Inr v | Some e' \<Rightarrow> Inl e')
           else Inl e)" if "scraper_strip inp = s"
    using that b by (simp add: scraper_clean_json_string_def split: sum.split option.split)
  ultimately show ?thesis using a b by blast
qed

theorem first_valid_wins_witness:
  \<open>analyzer_clean_json_string ''{"a":1}{"b":2}'' = Inr (JObject [(map of_char ''a'', JInt 1)])
   \<and> scraper_clean_json_string ''{"a":1}{"b":2}'' = Inr (JObject [(map of_char ''a'', JInt 1)])\<close>
proof -
  have h1: "all_rejected []" and h2: "braceless []" by (simp_all add: braceless_def)
  have h3: \<open>candidate_span ''{"a":1}''\<close> by simp
  have h4: \<open>json_loads ''{"a":1}'' = Inr (JObject [(map of_char ''a'', JInt 1)])\<close>
    by (simp add: json_eval)
  have h5: \<open>''{"a":1}{"b":2}'' = junk [] @ [] @ ''{"a":1}'' @ ''{"b":2}''\<close> by simp
  have s1: \<open>analyzer_strip ''{"a":1}{"b":2}'' = ''{"a":1}{"b":2}''\<close>
    by (simp add: text_eval)
  have s2: \<open>scraper_strip ''{"a":1}{"b":2}'' = ''{"a":1}{"b":2}''\<close>
    by (simp add: text_eval)
  have w: \<open>json_loads ''{"a":1}{"b":2}'' = Inl JSONDecodeError\<close>
    by (simp add: json_eval)
  from first_valid_wins [OF h1 h2 h3 h4 h5, of \<open>''{"a":1}{"b":2}''\<close>] s1 s2 w
  show ?thesis by simp
qed

text \<open>
  The claim as stated fails: the candidates are found by counting braces, those inside
  strings too. In \<open>{"a":"}"}{"b":2}\<close> the first object is valid JSON, but the brace in
  its string ends the first candidate too early. \<open>analyzer.py\<close> then counts the closing
  brace of the object as one too many and returns \<open>None\<close>; the scraper returns the second
  object.
\<close>

theorem first_valid_counterexample:
  \<open>json_loads ''{"a":"}"}'' = Inr (JObject [(map of_char ''a'', JString (map of_char ''}''))])
   \<and> analyzer_clean_json_string ''{"a":"}"}{"b":2}'' = Inr JNull
   \<and> scraper_clean_json_string ''{"a":"}"}{"b":2}'' = Inr (JObject [(map of_char ''b'', JInt 2)])\<close>
  by (simp add: analyzer_clean_json_string_def scraper_clean_json_string_def text_eval json_eval)

section \<open>The fallback parse\<close>

text \<open>
  Claim C10. The fallback parse of the whole text can return a value that is not a mapping:
  on \<open>[1, 2]\<close> and on \<open>42\<close> the scan of \<open>analyzer.py\<close> finds no candidate, and
  \<open>clean_json_string\<close> returns the list \<open>[1, 2]\<close> and the number \<open>42\<close>.
\<close>

theorem fallback_returns_non_mapping:
  \<open>analyzer_scan ''[1, 2]'' = None
   \<and> analyzer_clean_json_string ''[1, 2]'' = Inr (JArray [JInt 1, JInt 2])
   \<and> analyzer_scan ''42'' = None
   \<and> analyzer_clean_json_string ''42'' = Inr (JInt 42)\<close>
  by (simp add: analyzer_clean_json_string_def text_eval json_eval)

section \<open>Skip and continue\<close>

text \<open>
  Claim C2, as amended. Let the stripped text be prose without braces, a candidate span
  that \<open>json.loads\<close> rejects (such as \<open>{a: 1,}\<close>), prose without braces, a candidate span
  that parses as strict JSON to \<open>v\<close> (such as \<open>{"a": 1}\<close>), then anything. The scan of
  \<open>analyzer.py\<close> returns \<open>v\<close>, not a failure: after the rejected candidate the loop is in
  its initial state again (no start, depth zero) at the character after it, and goes on
  from there, so nothing is read twice; \<open>clean_json_string\<close> of \<open>analyzer.py\<close> returns
  \<open>v\<close>. The scraper does the same (empty stack) when the rejected candidate raised
  \<open>JSONDecodeError\<close>, and lets any other exception out. It reaches its scan when the whole
  text raises \<open>JSONDecodeError\<close>; when the whole text parses it returns that parse.
\<close>

theorem skip_and_continue:
  assumes "braceless pre" and "candidate_span bad" and "isl (json_loads bad)"
    and "braceless mid" and "candidate_span good" and "json_loads good = Inr v"
    and "s = pre @ bad @ mid @ good @ rest"
  shows "analyzer_scan s = Some v
    \<and> analyzer_loop s 0 None 0 s = analyzer_loop s (length (pre @ bad)) None 0 (mid @ good @ rest)
    \<and> (analyzer_strip inp = s \<longrightarrow> analyzer_clean_json_string inp = Inr v)
    \<and> scraper_scan s =
        (if json_loads bad = Inl JSONDecodeError then Inr (Some v) else Inl (projl (json_loads bad)))
    \<and> (json_loads bad = Inl JSONDecodeError \<longrightarrow>
         (\<exists>si. scraper_loop s 0 [] (- 1) s =
            scraper_loop s (length (pre @ bad)) [] si (mid @ good @ rest)))
    \<and> (scraper_strip inp = s \<longrightarrow>
         scraper_clean_json_string inp =
           (case json_loads s of
              Inr w \<Rightarrow> Inr w
            | Inl e \<Rightarrow>
                if e = JSONDecodeError then
                  (if json_loads bad = Inl JSONDecodeError then Inr v
                   else Inl (projl (json_loads bad)))
                else Inl e))"
proof -
  from assms(1-3) have rej: "all_rejected [(pre, bad)]" by simp
  from assms(3) obtain e where e: "json_loads bad = Inl e" by (auto simp: isl_def)
  then have r: "raised [(pre, bad)] = (if e = JSONDecodeError then None else Some e)" by simp
  have s: "s = junk [(pre, bad)] @ mid @ good @ rest" by (simp add: assms(7))
  have a: "analyzer_scan s = Some v"
    unfolding s by (rule analyzer_scan_first_valid [OF rej assms(4-6)])
  have b: "scraper_scan s =
      (if json_loads bad = Inl JSONDecodeError then Inr (Some v) else Inl (projl (json_loads bad)))"
    unfolding s using scraper_scan_first_valid [OF rej assms(4-6), of rest] by (simp add: r e)
  have c: "analyzer_loop s 0 None 0 s =
      analyzer_loop s (length (pre @ bad)) None 0 (mid @ good @ rest)"
    using analyzer_loop_junk [OF rej, of "[]" "mid @ good @ rest"] by (simp add: assms(7))
  have d: "\<exists>si. scraper_loop s 0 [] (- 1) s =
      scraper_loop s (length (pre @ bad)) [] si (mid @ good @ rest)"
    if "json_loads bad = Inl JSONDecodeError"
    using scraper_loop_junk [OF rej, of "[]" "mid @ good @ rest" "- 1"] that
    by (simp add: assms(7))
  have f: "scraper_clean_json_string inp =
      (case json_loads s of
         Inr w \<Rightarrow> Inr w
       | Inl e \<Rightarrow>
           if e = JSONDecodeError then
             (if json_loads bad = Inl JSONDecodeError then Inr v
              else Inl (projl (json_loads bad)))
           else Inl e)" if "scraper_strip inp = s"
    using that b by (simp add: scraper_clean_json_string_def split: sum.split)
  from a b c d f analyzer_clean_of_scan [OF a] show ?thesis by blast
qed

theorem skip_and_continue_witness:
  \<open>analyzer_clean_json_string ''{a: 1,} {"a": 1}'' = Inr (JObject [(map of_char ''a'', JInt 1)])
   \<and> scraper_clean_json_string ''{a: 1,} {"a": 1}'' = Inr (JObject [(map of_char ''a'', JInt 1)])\<close>
proof -
  have h1: "braceless []" and h4: "braceless '' ''" by (simp_all add: braceless_def)
  have h2: \<open>candidate_span ''{a: 1,}''\<close> and h5: \<open>candidate_span ''{"a": 1}''\<close> by simp_all
  have q: \<open>json_loads ''{a: 1,}'' = Inl JSONDecodeError\<close> by (simp add: json_eval)
  then have h3: \<open>isl (json_loads ''{a: 1,}'')\<close> by simp
  have h6: \<open>json_loads ''{"a": 1}'' = Inr (JObject [(map of_char ''a'', JInt 1)])\<close>
    by (simp add: json_eval)
  have h7: \<open>''{a: 1,} {"a": 1}'' = [] @ ''{a: 1,}'' @ '' '' @ ''{"a": 1}'' @ []\<close> by simp
  have s1: \<open>analyzer_strip ''{a: 1,} {"a": 1}'' = ''{a: 1,} {"a": 1}''\<close>
    by (simp add: text_eval)
  have s2: \<open>scraper_strip ''{a: 1,} {"a": 1}'' = ''{a: 1,} {"a": 1}''\<close>
    by (simp add: text_eval)
  have w: \<open>json_loads ''{a: 1,} {"a": 1}'' = Inl JSONDecodeError\<close>
    by (simp add: json_eval)
  from skip_and_continue [OF h1 h2 h3 h4 h5 h6 h7, of \<open>''{a: 1,} {"a": 1}''\<close>] s1 s2 w q
  show ?thesis by simp
qed

text \<open>
  The claim as stated fails. \<open>analyzer.py\<close> counts a closing brace that nothing opened:
  after \<open>{a: 1,} }\<close> its depth is below zero, the valid span that follows never brings
  it back to zero, and the result is \<open>None\<close>. The scraper parses the whole text first:
  when the two spans stand in a text that is JSON as a whole, it returns that value, not
  the object of the second span.
\<close>

theorem skip_and_continue_counterexample:
  \<open>analyzer_clean_json_string ''{a: 1,} } {"a": 1}'' = Inr JNull
   \<and> scraper_clean_json_string ''["{a: 1,}", {"a": 1}]'' =
       Inr (JArray [JString (map of_char ''{a: 1,}''), JObject [(map of_char ''a'', JInt 1)]])\<close>
  by (simp add: analyzer_clean_json_string_def scraper_clean_json_string_def text_eval json_eval)

section \<open>Failures\<close>

lemma analyzer_loop_no_open:
  "CHR ''{'' \<notin> set t \<Longrightarrow> analyzer_loop s i None d t = None"
  by (induction t arbitrary: i d) auto

lemma scraper_loop_no_open:
  "CHR ''{'' \<notin> set t \<Longrightarrow> scraper_loop s i [] si t = Inr None"
  by (induction t arbitrary: i) auto

lemma analyzer_loop_stays_open:
  "stays_open d body \<Longrightarrow> 1 \<le> d \<Longrightarrow> analyzer_loop s j (Some k) d body = None"
proof (induction body arbitrary: d j)
  case Nil
  then show ?case by simp
next
  case (Cons c cs)
  then show ?case by (auto split: if_splits)
qed

lemma scraper_loop_stays_open:
  "stays_open d body \<Longrightarrow> 1 \<le> d \<Longrightarrow> length stk = nat d \<Longrightarrow>
   scraper_loop s j stk si body = Inr None"
proof (induction body arbitrary: d j stk)
  case Nil
  then show ?case by simp
next
  case (Cons c cs)
  from Cons.prems have ne: "stk \<noteq> []" by auto
  show ?case
  proof (cases "c = CHR ''{''")
    case True
    with Cons.prems have "stays_open (d + 1) cs" "length (stk @ ''{'') = nat (d + 1)" by simp_all
    from Cons.IH [OF this(1) _ this(2), of "j + 1"] Cons.prems True ne show ?thesis by simp
  next
    case False
    show ?thesis
    proof (cases "c = CHR ''}''")
      case True
      with Cons.prems have so: "stays_open (d - 1) cs" and d: "1 \<le> d - 1" by auto
      from d Cons.prems have len: "length (butlast stk) = nat (d - 1)"
        and nb: "butlast stk \<noteq> []" by (simp_all add: butlast_empty_iff)
      from Cons.IH [OF so d len, of "j + 1"] True ne nb show ?thesis by simp
    next
      case other: False
      with False Cons.prems have "stays_open d cs" by simp
      from Cons.IH [OF this, of stk "j + 1"] Cons.prems False other show ?thesis by simp
    qed
  qed
qed

lemma analyzer_loop_unclosed: "no_candidate t \<Longrightarrow> analyzer_loop s i None 0 t = None"
proof (induction t arbitrary: i)
  case Nil
  then show ?case by simp
next
  case (Cons c cs)
  show ?case
  proof (cases "c = CHR ''{''")
    case True
    with Cons.prems have "stays_open 1 cs" by simp
    from analyzer_loop_stays_open [OF this, of s "i + 1" i] True show ?thesis by simp
  next
    case False
    show ?thesis
    proof (cases "c = CHR ''}''")
      case True
      with Cons.prems have "CHR ''{'' \<notin> set cs" by simp
      from analyzer_loop_no_open [OF this, of s "i + 1" "- 1"] True show ?thesis by simp
    next
      case other: False
      with False Cons.prems have "no_candidate cs" by simp
      from Cons.IH [OF this, of "i + 1"] False other show ?thesis by simp
    qed
  qed
qed

lemma scraper_loop_unclosed: "no_candidate t \<Longrightarrow> scraper_loop s i [] si t = Inr None"
proof (induction t arbitrary: i)
  case Nil
  then show ?case by simp
next
  case (Cons c cs)
  show ?case
  proof (cases "c = CHR ''{''")
    case True
    with Cons.prems have "stays_open 1 cs" by simp
    from scraper_loop_stays_open [OF this, of "''{''" s "i + 1" "int i"] True
    show ?thesis by simp
  next
    case False
    show ?thesis
    proof (cases "c = CHR ''}''")
      case True
      with Cons.prems have "CHR ''{'' \<notin> set cs" by simp
      from scraper_loop_no_open [OF this, of s "i + 1" si] True show ?thesis by simp
    next
      case other: False
      with False Cons.prems have "no_candidate cs" by simp
      from Cons.IH [OF this, of "i + 1"] False other show ?thesis by simp
    qed
  qed
qed

text \<open>The scans of a text made of candidate spans in prose and a rest without
  candidate.\<close>

lemma analyzer_scan_spans:
  assumes "spans_in_prose sk" and "no_candidate t"
  shows "analyzer_scan (junk sk @ t) = analyzer_tries (map snd sk)"
  using analyzer_loop_spans [OF assms(1), of "[]" t] analyzer_loop_unclosed [OF assms(2)]
  by (simp add: analyzer_scan_def split: option.split)

lemma scraper_scan_spans:
  assumes "spans_in_prose sk" and "no_candidate t"
  shows "scraper_scan (junk sk @ t) = scraper_tries (map snd sk)"
proof (cases "scraper_tries (map snd sk)")
  case (Inl e)
  with scraper_loop_spans [OF assms(1), of "[]" t "- 1"] show ?thesis
    by (auto simp: scraper_scan_def)
next
  case (Inr r)
  show ?thesis
  proof (cases r)
    case None
    with Inr scraper_loop_spans [OF assms(1), of "[]" t "- 1"] show ?thesis
      by (auto simp: scraper_scan_def scraper_loop_unclosed [OF assms(2)])
  next
    case (Some v)
    with Inr scraper_loop_spans [OF assms(1), of "[]" t "- 1"] show ?thesis
      by (auto simp: scraper_scan_def)
  qed
qed

text \<open>
  Claim C5, as amended. Neither function classifies a failure. Let the stripped text be
  any number of candidate spans that \<open>json.loads\<close> rejects, each after prose without
  braces, followed by a text that has no \<open>{\<close> at all, or whose first \<open>{\<close> comes after
  prose without braces and is never closed (the depth never returns to zero). Then the
  scan of \<open>analyzer.py\<close> returns nothing and the function returns the strict parse of the
  whole stripped text when that succeeds, and \<open>None\<close> otherwise, for every cause. The scan
  of the scraper returns nothing too, unless a candidate raised an exception other than
  \<open>JSONDecodeError\<close>, which it lets out; the function returns the strict parse of the
  whole text when that succeeds, and otherwise raises: the exception of the whole parse
  when that is not a \<open>JSONDecodeError\<close>, else the exception that the scan let out, else
  \<open>JSONDecodeError\<close>. An unclosed brace never yields a part of an object.
\<close>

theorem failure_is_untyped:
  assumes "all_rejected skipped" and "s = junk skipped @ t" and "no_candidate t"
  shows "analyzer_scan s = None
    \<and> scraper_scan s = (case raised skipped of None \<Rightarrow> Inr None | Some e \<Rightarrow> Inl e)
    \<and> (analyzer_strip inp = s \<longrightarrow>
         analyzer_clean_json_string inp =
           (case json_loads s of Inr v \<Rightarrow> Inr v | Inl e \<Rightarrow> Inr JNull))
    \<and> (scraper_strip inp = s \<longrightarrow>
         scraper_clean_json_string inp =
           (case json_loads s of
              Inr v \<Rightarrow> Inr v
            | Inl e \<Rightarrow>
                Inl (if e = JSONDecodeError then
                       (case raised skipped of None \<Rightarrow> JSONDecodeError | Some e' \<Rightarrow> e')
                     else e)))"
proof -
  from assms(1) have sp: "spans_in_prose skipped" by (rule all_rejected_spans)
  have a: "analyzer_scan s = None"
    unfolding assms(2) using analyzer_scan_spans [OF sp assms(3)]
    by (simp add: all_rejected_analyzer [OF assms(1)])
  have b: "scraper_scan s = (case raised skipped of None \<Rightarrow> Inr None | Some e \<Rightarrow> Inl e)"
    unfolding assms(2) using scraper_scan_spans [OF sp assms(3)]
    by (simp add: all_rejected_scraper [OF assms(1)])
  have "scraper_clean_json_string inp =
      (case json_loads s of
         Inr v \<Rightarrow> Inr v
       | Inl e \<Rightarrow>
           Inl (if e = JSONDecodeError then
                  (case raised skipped of None \<Rightarrow> JSONDecodeError | Some e' \<Rightarrow> e')
                else e))" if "scraper_strip inp = s"
    using that b by (simp add: scraper_clean_json_string_def split: sum.split option.split)
  with a b analyzer_clean_no_scan [OF a] show ?thesis by blast
qed

theorem failure_is_untyped_witness:
  \<open>analyzer_clean_json_string ''{"a": {"b": 1}'' = Inr JNull
   \<and> scraper_clean_json_string ''{"a": {"b": 1}'' = Inl JSONDecodeError\<close>
proof -
  have h1: "all_rejected []" by simp
  have h2: \<open>''{"a": {"b": 1}'' = junk [] @ ''{"a": {"b": 1}''\<close> by simp
  have h3: \<open>no_candidate ''{"a": {"b": 1}''\<close> by simp
  have s1: \<open>analyzer_strip ''{"a": {"b": 1}'' = ''{"a": {"b": 1}''\<close>
    by (simp add: text_eval)
  have s2: \<open>scraper_strip ''{"a": {"b": 1}'' = ''{"a": {"b": 1}''\<close>
    by (simp add: text_eval)
  have w: \<open>json_loads ''{"a": {"b": 1}'' = Inl JSONDecodeError\<close>
    by (simp add: json_eval)
  from failure_is_untyped [OF h1 h2 h3, of \<open>''{"a": {"b": 1}''\<close>] s1 s2 w
  show ?thesis by simp
qed

text \<open>
  The claim as stated fails: a text with no \<open>{\<close>, a text with an unclosed \<open>{\<close> and a text
  whose only candidate is malformed have the same outcome, which names no cause.
\<close>

theorem failure_taxonomy_counterexample:
  \<open>analyzer_clean_json_string ''hola'' = Inr JNull
   \<and> analyzer_clean_json_string ''{'' = Inr JNull
   \<and> analyzer_clean_json_string ''{a: 1,}'' = Inr JNull
   \<and> scraper_clean_json_string ''hola'' = Inl JSONDecodeError
   \<and> scraper_clean_json_string ''{'' = Inl JSONDecodeError
   \<and> scraper_clean_json_string ''{a: 1,}'' = Inl JSONDecodeError\<close>
  by (simp add: analyzer_clean_json_string_def scraper_clean_json_string_def text_eval json_eval)

section \<open>Raising\<close>

text \<open>
  Claim C6, as amended. \<open>clean_json_string\<close> of \<open>analyzer.py\<close> never raises: on every
  text it returns a value, \<open>None\<close> when nothing parses. The one of the scraper raises. It
  raises \<open>JSONDecodeError\<close> exactly when the whole stripped text raises it and its scan
  finds no candidate that parses; it raises another exception \<open>e\<close> exactly when
  \<open>json.loads\<close> raises \<open>e\<close> on the whole text, or raises \<open>JSONDecodeError\<close> on the whole
  text and \<open>e\<close> on a candidate of the scan.
\<close>

theorem analyzer_never_raises:
  "(\<exists>v. analyzer_clean_json_string inp = Inr v)
   \<and> ((scraper_clean_json_string inp = Inl e) =
        (if json_loads (scraper_strip inp) = Inl JSONDecodeError then
           scraper_scan (scraper_strip inp) = (if e = JSONDecodeError then Inr None else Inl e)
         else json_loads (scraper_strip inp) = Inl e))"
proof -
  have "\<exists>v. analyzer_clean_json_string inp = Inr v"
    by (auto simp: analyzer_clean_json_string_def Let_def split: option.splits sum.splits)
  moreover have "(scraper_clean_json_string inp = Inl e) =
        (if json_loads (scraper_strip inp) = Inl JSONDecodeError then
           scraper_scan (scraper_strip inp) = (if e = JSONDecodeError then Inr None else Inl e)
         else json_loads (scraper_strip inp) = Inl e)"
    using scraper_scan_quiet [of "scraper_strip inp"]
    by (auto simp: scraper_clean_json_string_def Let_def split: option.splits sum.splits)
  ultimately show ?thesis by blast
qed

text \<open>The claim as stated fails for the scraper: on a text without JSON, and on the empty
  text, it raises.\<close>

theorem scraper_raises_counterexample:
  \<open>scraper_clean_json_string ''No pude leer el documento.'' = Inl JSONDecodeError
   \<and> scraper_clean_json_string [] = Inl JSONDecodeError\<close>
  by (simp add: scraper_clean_json_string_def text_eval json_eval)

section \<open>The two implementations compared\<close>

lemma scraper_tries_quiet: "scraper_tries bs \<noteq> Inl JSONDecodeError"
  by (induction bs) (auto split: sum.splits)

lemma tries_agree_Some: "scraper_tries bs = Inr (Some v) \<Longrightarrow> analyzer_tries bs = Some v"
  by (induction bs) (auto split: sum.splits if_splits)

lemma tries_agree_None: "scraper_tries bs = Inr None \<Longrightarrow> analyzer_tries bs = None"
  by (induction bs) (auto split: sum.splits if_splits)

lemma span_body_prefix: "span_body d b \<Longrightarrow> span_body d (b @ r) \<Longrightarrow> r = []"
  by (induction d b rule: span_body.induct) (auto split: if_splits)

lemma span_not_open: "span_body d b \<Longrightarrow> 1 \<le> d \<Longrightarrow> \<not> stays_open d b"
  by (induction d b rule: span_body.induct) (auto split: if_splits)

text \<open>A text that is a candidate span as a whole has itself as its first candidate.\<close>

lemma whole_span_first:
  assumes "candidate_span s" and "s = junk sk @ t" and "spans_in_prose sk" and "no_candidate t"
  shows "\<exists>bs. map snd sk = s # bs"
proof (cases sk)
  case Nil
  with assms(2) have "s = t" by simp
  with assms(1,4) obtain cs where "span_body 1 cs" "stays_open 1 cs"
    by (cases t) (auto split: if_splits)
  with span_not_open [of 1 cs] show ?thesis by simp
next
  case (Cons p rest)
  obtain n b where p: "p = (n, b)" by (cases p)
  from assms(3) Cons p have n: "braceless n" and b: "candidate_span b" by simp_all
  from b obtain body where bb: "b = CHR ''{'' # body" and sb: "span_body 1 body"
    by (cases b) auto
  have s: "s = n @ b @ junk rest @ t" using assms(2) Cons p by simp
  have "n = []"
  proof (cases n)
    case Nil
    then show ?thesis .
  next
    case (Cons c cs)
    with s assms(1) have "c = CHR ''{''" by simp
    with Cons n show ?thesis by (simp add: braceless_def)
  qed
  with s bb assms(1) have "span_body 1 (body @ junk rest @ t)" by simp
  from span_body_prefix [OF sb this] s \<open>n = []\<close> have "s = b" by simp
  with Cons p show ?thesis by simp
qed

lemma analyzer_scan_whole:
  assumes "candidate_span s"
  shows "analyzer_scan s = (case json_loads s of Inr v \<Rightarrow> Some v | Inl e \<Rightarrow> None)"
  using analyzer_loop_candidate [OF assms, of "[]" "[]"]
  by (simp add: analyzer_scan_def split: sum.split)

text \<open>
  Claim C9, as amended. The two functions strip the input differently. Let the two
  stripped texts hold the same candidate spans in the same order, each after prose without
  braces, and end with a text in which no candidate is found. Then each scan tries these
  candidates in their order: \<open>analyzer.py\<close> returns the first that parses and skips all
  others; the scraper skips those that raise \<open>JSONDecodeError\<close> and lets any other
  exception out. Let the text that the scraper stripped raise \<open>JSONDecodeError\<close> as a
  whole. If the scraper returns a value, \<open>analyzer.py\<close> returns the same value. If the
  scraper raises \<open>JSONDecodeError\<close>, no candidate parsed, and \<open>analyzer.py\<close> returns the
  parse of its own stripped text, or \<open>None\<close>. If the scraper raises another exception, a
  candidate raised it, which \<open>analyzer.py\<close> skipped. And if the text that the scraper
  stripped is itself a candidate span and valid JSON, both return its parse.
\<close>

theorem implementations_agree:
  assumes "analyzer_strip inp = junk ska @ ta" and "scraper_strip inp = junk sks @ ts"
    and "spans_in_prose ska" and "spans_in_prose sks" and "map snd ska = map snd sks"
    and "no_candidate ta" and "no_candidate ts"
  shows "analyzer_scan (analyzer_strip inp) = analyzer_tries (map snd sks)
    \<and> scraper_scan (scraper_strip inp) = scraper_tries (map snd sks)
    \<and> analyzer_clean_json_string inp =
        (case analyzer_tries (map snd sks) of
           Some v \<Rightarrow> Inr v
         | None \<Rightarrow>
             (case json_loads (analyzer_strip inp) of Inr w \<Rightarrow> Inr w | Inl e \<Rightarrow> Inr JNull))
    \<and> (json_loads (scraper_strip inp) = Inl JSONDecodeError \<longrightarrow>
         (case scraper_clean_json_string inp of
            Inr v \<Rightarrow> analyzer_clean_json_string inp = Inr v
          | Inl e \<Rightarrow>
              if e = JSONDecodeError then
                analyzer_clean_json_string inp =
                  (case json_loads (analyzer_strip inp) of Inr w \<Rightarrow> Inr w | Inl e' \<Rightarrow> Inr JNull)
              else scraper_tries (map snd sks) = Inl e))
    \<and> (candidate_span (scraper_strip inp) \<and> \<not> isl (json_loads (scraper_strip inp)) \<longrightarrow>
         analyzer_clean_json_string inp = json_loads (scraper_strip inp)
         \<and> scraper_clean_json_string inp = json_loads (scraper_strip inp))"
proof -
  let ?bs = "map snd sks"
  have a: "analyzer_scan (analyzer_strip inp) = analyzer_tries ?bs"
    unfolding assms(1) using analyzer_scan_spans [OF assms(3,6)] by (simp add: assms(5))
  have b: "scraper_scan (scraper_strip inp) = scraper_tries ?bs"
    unfolding assms(2) by (rule scraper_scan_spans [OF assms(4,7)])
  have c: "analyzer_clean_json_string inp =
      (case analyzer_tries ?bs of
         Some v \<Rightarrow> Inr v
       | None \<Rightarrow>
           (case json_loads (analyzer_strip inp) of Inr w \<Rightarrow> Inr w | Inl e \<Rightarrow> Inr JNull))"
  proof (cases "analyzer_tries ?bs")
    case None
    with a analyzer_clean_no_scan [of "analyzer_strip inp" inp] show ?thesis by simp
  next
    case (Some v)
    with a analyzer_clean_of_scan [of "analyzer_strip inp" v inp] show ?thesis by simp
  qed
  have d: "case scraper_clean_json_string inp of
            Inr v \<Rightarrow> analyzer_clean_json_string inp = Inr v
          | Inl e \<Rightarrow>
              if e = JSONDecodeError then
                analyzer_clean_json_string inp =
                  (case json_loads (analyzer_strip inp) of Inr w \<Rightarrow> Inr w | Inl e' \<Rightarrow> Inr JNull)
              else scraper_tries ?bs = Inl e"
    if whole: "json_loads (scraper_strip inp) = Inl JSONDecodeError"
  proof (cases "scraper_tries ?bs")
    case (Inl e)
    with scraper_tries_quiet [of ?bs] have "e \<noteq> JSONDecodeError" by auto
    with Inl whole b show ?thesis by (simp add: scraper_clean_json_string_def)
  next
    case (Inr r)
    show ?thesis
    proof (cases r)
      case None
      with Inr have "analyzer_tries ?bs = None" by (simp add: tries_agree_None)
      with c None Inr whole b show ?thesis by (simp add: scraper_clean_json_string_def)
    next
      case (Some v)
      with Inr have "analyzer_tries ?bs = Some v" by (simp add: tries_agree_Some)
      with c Some Inr whole b show ?thesis by (simp add: scraper_clean_json_string_def)
    qed
  qed
  have e: "analyzer_clean_json_string inp = json_loads (scraper_strip inp)
         \<and> scraper_clean_json_string inp = json_loads (scraper_strip inp)"
    if span: "candidate_span (scraper_strip inp)" and ok: "\<not> isl (json_loads (scraper_strip inp))"
  proof -
    from ok obtain v where v: "json_loads (scraper_strip inp) = Inr v"
      by (cases "json_loads (scraper_strip inp)") auto
    from whole_span_first [OF span assms(2,4,7)]
    obtain cs where "map snd sks = scraper_strip inp # cs" by auto
    with v have "analyzer_tries ?bs = Some v" by simp
    with c v show ?thesis by (simp add: scraper_clean_json_string_def)
  qed
  from a b c d e show ?thesis by blast
qed

theorem implementations_agree_witness:
  \<open>scraper_clean_json_string
     (''Resultado:'' @ [CHR 0x0A] @ ''```json'' @ [CHR 0x0A] @ ''{"a": 1}'' @ [CHR 0x0A]
      @ ''```'' @ [CHR 0x0A] @ ''Fin.'') = Inr (JObject [(map of_char ''a'', JInt 1)])
   \<and> analyzer_clean_json_string
     (''Resultado:'' @ [CHR 0x0A] @ ''```json'' @ [CHR 0x0A] @ ''{"a": 1}'' @ [CHR 0x0A]
      @ ''```'' @ [CHR 0x0A] @ ''Fin.'') = Inr (JObject [(map of_char ''a'', JInt 1)])\<close>
proof -
  let ?inp = \<open>''Resultado:'' @ [CHR 0x0A] @ ''```json'' @ [CHR 0x0A] @ ''{"a": 1}'' @ [CHR 0x0A]
      @ ''```'' @ [CHR 0x0A] @ ''Fin.''\<close>
  have s1: \<open>analyzer_strip ?inp =
      junk [(''Resultado:'' @ [CHR 0x0A, CHR 0x0A], ''{"a": 1}'')] @ ([CHR 0x0A, CHR 0x0A] @ ''Fin.'')\<close>
    by (simp add: text_eval)
  have s2: \<open>scraper_strip ?inp =
      junk [(''Resultado:'' @ [CHR 0x0A], ''{"a": 1}'')] @ ([CHR 0x0A] @ ''Fin.'')\<close>
    by (simp add: text_eval)
  have h3: \<open>spans_in_prose [(''Resultado:'' @ [CHR 0x0A, CHR 0x0A], ''{"a": 1}'')]\<close>
    and h4: \<open>spans_in_prose [(''Resultado:'' @ [CHR 0x0A], ''{"a": 1}'')]\<close>
    by (simp_all add: braceless_def)
  have h5: \<open>map snd [(''Resultado:'' @ [CHR 0x0A, CHR 0x0A], ''{"a": 1}'')] =
      map snd [(''Resultado:'' @ [CHR 0x0A], ''{"a": 1}'')]\<close> by simp
  have h6: \<open>no_candidate ([CHR 0x0A, CHR 0x0A] @ ''Fin.'')\<close>
    and h7: \<open>no_candidate ([CHR 0x0A] @ ''Fin.'')\<close> by simp_all
  have w: \<open>json_loads (scraper_strip ?inp) = Inl JSONDecodeError\<close>
    by (simp add: text_eval json_eval)
  have sc: \<open>scraper_clean_json_string ?inp = Inr (JObject [(map of_char ''a'', JInt 1)])\<close>
    by (simp add: scraper_clean_json_string_def text_eval json_eval)
  from implementations_agree [OF s1 s2 h3 h4 h5 h6 h7] w
  have \<open>case scraper_clean_json_string ?inp of
            Inr v \<Rightarrow> analyzer_clean_json_string ?inp = Inr v
          | Inl e \<Rightarrow>
              if e = JSONDecodeError then
                analyzer_clean_json_string ?inp =
                  (case json_loads (analyzer_strip ?inp) of Inr w \<Rightarrow> Inr w | Inl e' \<Rightarrow> Inr JNull)
              else scraper_tries (map snd [(''Resultado:'' @ [CHR 0x0A], ''{"a": 1}'')]) = Inl e\<close>
    by blast
  with sc show ?thesis by simp
qed

text \<open>
  The claim as stated fails. On \<open>[{"a":1}]\<close> both succeed with different values: the
  scraper parses the whole text first and returns the list, \<open>analyzer.py\<close> scans first and
  returns the object inside. On \<open>}{"a":1}\<close> the scraper ignores the unmatched \<open>}\<close> and
  succeeds, \<open>analyzer.py\<close> counts it and returns \<open>None\<close>. On \<open>{"a": "x``` y"}\<close> the
  scraper deletes the space after the marker and \<open>analyzer.py\<close> keeps it: the two
  candidates differ, and so do the values.
\<close>

theorem implementations_differ_counterexample:
  \<open>analyzer_clean_json_string ''[{"a":1}]'' = Inr (JObject [(map of_char ''a'', JInt 1)])
   \<and> scraper_clean_json_string ''[{"a":1}]'' = Inr (JArray [JObject [(map of_char ''a'', JInt 1)]])
   \<and> analyzer_clean_json_string ''}{"a":1}'' = Inr JNull
   \<and> scraper_clean_json_string ''}{"a":1}'' = Inr (JObject [(map of_char ''a'', JInt 1)])
   \<and> analyzer_clean_json_string ''{"a": "x``` y"}'' =
       Inr (JObject [(map of_char ''a'', JString (map of_char ''x y''))])
   \<and> scraper_clean_json_string ''{"a": "x``` y"}'' =
       Inr (JObject [(map of_char ''a'', JString (map of_char ''xy''))])\<close>
  by (simp add: analyzer_clean_json_string_def scraper_clean_json_string_def text_eval json_eval)

section \<open>The numeric normalizer\<close>

lemmas number_eval =
  to_number_str_def py_lower_def upper_chars_def lower_chars_def py_strip_def py_isspace_def
  startswith_def match_number_def is_digit_def float_of_group_def dec_value_def digit_val_def
  float_of_int_def float_eval

text \<open>The examples of the specification, and the branches that cannot raise. The
  results are doubles: \<open>1.005 * 1000\<close> is not \<open>1005\<close>, and \<open>float(2 ** 53 + 1)\<close> is
  \<open>2 ** 53\<close>.\<close>

lemma to_number_simple_examples:
  \<open>to_number_simple (PStr ''15 millones de pesos'') = Inr (Some (Finite 15000000))\<close>
  \<open>to_number_simple (PStr ''500 mil pesos'') = Inr (Some (Finite 500000))\<close>
  \<open>to_number_simple (PStr ''null'') = Inr None\<close>
  \<open>to_number_simple (PStr ''None'') = Inr None\<close>
  \<open>to_number_simple (PStr ''-'') = Inr None\<close>
  \<open>to_number_simple (PStr '''') = Inr None\<close>
  \<open>to_number_simple (PInt 7) = Inr (Some (Finite 7))\<close>
  \<open>to_number_simple (PStr ''costo: 1,234.50 MXN'') = Inr (Some (Finite (2469 / 2)))\<close>
  \<open>to_number_simple (PStr ''sin dato'') = Inr None\<close>
  by (simp_all add: number_eval)

lemma to_number_simple_rounds:
  \<open>to_number_simple (PStr ''1.005 mil'') = Inr (Some (Finite (8840073487319039 / 8796093022208)))\<close>
  \<open>to_number_simple (PInt (2 ^ 53 + 1)) = Inr (Some (Finite (2 ^ 53)))\<close>
  by (simp_all add: number_eval)

lemma to_number_simple_total:
  "to_number_simple PNone = Inr None"
  "to_number_simple (PFloat x) = Inr (Some x)"
  "to_number_simple (PStr t) = Inr (to_number_str t)"
  "\<bar>i\<bar> < 2 ^ 1024 - 2 ^ 970 \<Longrightarrow> to_number_simple (PInt i) = Inr (Some (to_double (of_int i)))"
  by (simp_all add: float_of_int_def)

text \<open>
  Claim C7. The contract holds on \<open>None\<close>, on strings and on floats, but not the promise
  never to raise: an already-numeric input goes through \<open>float(s)\<close> unguarded, and
  \<open>float\<close> of an \<open>int\<close> beyond the range of a double raises \<open>OverflowError\<close>. Here the
  input is the integer \<open>10 ** 400\<close>.
\<close>

theorem to_number_simple_overflow:
  "to_number_simple (PInt (10 ^ 400)) = Inl OverflowError"
  by (simp add: float_of_int_def)

section \<open>Fence stripping\<close>

lemma startswith_iff: "startswith p s \<longleftrightarrow> (\<exists>r. s = p @ r)"
  by (auto simp: startswith_def) (metis append_take_drop_id)




lemma startswith_json_fence: "startswith ''```json'' s \<Longrightarrow> startswith ''```'' s"
  by (auto simp: startswith_iff)




lemma no_marker_analyzer_sub: "\<not> has_marker s \<Longrightarrow> analyzer_sub s = s"
  by (induction s) (auto dest: startswith_json_fence)

lemma no_marker_re_sub_ws:
  "\<not> has_marker s \<Longrightarrow> startswith ''```'' marker \<Longrightarrow> re_sub_ws marker s = s"
proof (induction s)
  case Nil
  show ?case by simp
next
  case (Cons c cs)
  then have "\<not> startswith marker (c # cs)" by (auto simp: startswith_iff)
  with Cons show ?case by simp
qed

lemma no_marker_strip:
  assumes "\<not> has_marker s"
  shows "analyzer_strip s = py_strip s" and "scraper_strip s = py_strip s"
  using assms
  by (simp_all add: analyzer_strip_def scraper_strip_def no_marker_analyzer_sub
      no_marker_re_sub_ws startswith_iff)




section \<open>A fenced object in prose\<close>








lemma braceless_rev [simp]: "braceless (rev a) = braceless a"
  by (simp add: braceless_def)

lemma braceless_append [simp]: "braceless (a @ b) = (braceless a \<and> braceless b)"
  by (auto simp: braceless_def)







section \<open>Clean input\<close>

text \<open>
  Claim C3, as amended. Let \<open>s\<close> be a text in which no fence marker occurs and which,
  without the white space around it, is a valid JSON object. The scraper returns its strict
  parse. \<open>analyzer.py\<close> scans first: it returns what its scan finds, and the strict parse of
  the text when the scan finds nothing that parses; that is the case when the text is
  itself a candidate span, and then the result is its strict parse.
\<close>

theorem clean_input_identity:
  assumes "json_loads (py_strip s) = Inr (JObject kvs)" and "\<not> has_marker s"
  shows "scraper_clean_json_string s = json_loads (py_strip s)
    \<and> analyzer_clean_json_string s =
        (case analyzer_scan (py_strip s) of Some w \<Rightarrow> Inr w | None \<Rightarrow> json_loads (py_strip s))
    \<and> (candidate_span (py_strip s) \<longrightarrow> analyzer_clean_json_string s = json_loads (py_strip s))"
proof -
  from no_marker_strip [OF assms(2)]
  have st: "analyzer_strip s = py_strip s" "scraper_strip s = py_strip s" by simp_all
  from assms(1) have "py_strip s \<noteq> []" by auto
  then have ne: "s \<noteq> []" by auto
  have a: "scraper_clean_json_string s = json_loads (py_strip s)"
    using assms(1) st by (simp add: scraper_clean_json_string_def)
  have b: "analyzer_clean_json_string s =
        (case analyzer_scan (py_strip s) of Some w \<Rightarrow> Inr w | None \<Rightarrow> json_loads (py_strip s))"
    using assms(1) st ne by (simp add: analyzer_clean_json_string_def split: option.split)
  have "analyzer_clean_json_string s = json_loads (py_strip s)" if "candidate_span (py_strip s)"
    using analyzer_scan_whole [OF that] assms(1) b by simp
  with a b show ?thesis by blast
qed

theorem clean_input_identity_witness:
  \<open>scraper_clean_json_string ''{"a": {"b": [1, 2]}}'' =
     Inr (JObject [(map of_char ''a'', JObject [(map of_char ''b'', JArray [JInt 1, JInt 2])])])
   \<and> analyzer_clean_json_string ''{"a": {"b": [1, 2]}}'' =
     Inr (JObject [(map of_char ''a'', JObject [(map of_char ''b'', JArray [JInt 1, JInt 2])])])\<close>
proof -
  have p: \<open>py_strip ''{"a": {"b": [1, 2]}}'' = ''{"a": {"b": [1, 2]}}''\<close>
    by (simp add: py_strip_def py_isspace_def)
  have h1: \<open>json_loads (py_strip ''{"a": {"b": [1, 2]}}'') =
     Inr (JObject [(map of_char ''a'', JObject [(map of_char ''b'', JArray [JInt 1, JInt 2])])])\<close>
    unfolding p by (simp add: json_eval)
  have h2: \<open>\<not> has_marker ''{"a": {"b": [1, 2]}}''\<close> by (simp add: startswith_def)
  have h3: \<open>candidate_span (py_strip ''{"a": {"b": [1, 2]}}'')\<close> unfolding p by simp
  from clean_input_identity [OF h1 h2] h3
  have \<open>scraper_clean_json_string ''{"a": {"b": [1, 2]}}'' =
      json_loads (py_strip ''{"a": {"b": [1, 2]}}'')
    \<and> analyzer_clean_json_string ''{"a": {"b": [1, 2]}}'' =
      json_loads (py_strip ''{"a": {"b": [1, 2]}}'')\<close>
    by blast
  then show ?thesis unfolding h1 .
qed

text \<open>
  The claim as stated fails. In \<open>{"a": "}{}"}\<close> the braces inside the string make \<open>{}\<close> a
  candidate span, which \<open>analyzer.py\<close> returns. In \<open>{"a": "```"}\<close> the string holds a fence
  marker, which both implementations delete before they parse.
\<close>

theorem clean_input_counterexample:
  \<open>json_loads ''{"a": "}{}"}'' = Inr (JObject [(map of_char ''a'', JString (map of_char ''}{}''))])
   \<and> analyzer_clean_json_string ''{"a": "}{}"}'' = Inr (JObject [])
   \<and> json_loads ''{"a": "```"}'' = Inr (JObject [(map of_char ''a'', JString (map of_char ''```''))])
   \<and> analyzer_clean_json_string ''{"a": "```"}'' = Inr (JObject [(map of_char ''a'', JString [])])
   \<and> scraper_clean_json_string ''{"a": "```"}'' = Inr (JObject [(map of_char ''a'', JString [])])\<close>
  by (simp add: analyzer_clean_json_string_def scraper_clean_json_string_def text_eval json_eval)

end
